theory Spec2Isabelle
  imports Main "HOL-Library.AList" "HOL-Library.Finite_Map"
begin

section \<open>Python values, dictionaries and errors\<close>

text \<open>
  Attribute values are Python objects. The ones the graph code itself builds are strings and
  the empty dictionary; \<open>None\<close> is what \<open>dict.get\<close> returns for a missing key. A dictionary
  stored as a value compares by content, so it is a finite map, whose HOL equality is
  Python's \<open>==\<close> on dictionaries.
\<close>

datatype val = VNone | VStr string | VInt int | VDict "(string, val) fmap"

text \<open>
  An attribute dictionary (node data, edge data, graph data, keyword arguments that are only
  merged into one) is a map: it is compared with \<open>==\<close> and read by key, never iterated by
  the graph code. The structural dictionaries of the graph (\<open>self.node\<close>, \<open>self.edge\<close> and the
  dictionaries nested in it) are iterated, so they are association lists in insertion
  order: \<open>d[k] = v\<close> is \<open>AList.update\<close>, which replaces in place or appends, and \<open>k in d\<close>
  and \<open>d[k]\<close> read the first entry of the key.
\<close>

type_synonym attrs = "string \<rightharpoonup> val"

datatype error = KeyError | TypeError | ValueError

definition dict_in :: "('k \<times> 'v) list \<Rightarrow> 'k \<Rightarrow> bool" where
  "dict_in d k = (map_of d k \<noteq> None)"

definition subscript :: "('k \<times> 'v) list \<Rightarrow> 'k \<Rightarrow> error + 'v" where
  "subscript d k = (case map_of d k of None \<Rightarrow> Inl KeyError | Some v \<Rightarrow> Inr v)"

definition attr_subscript :: "attrs \<Rightarrow> string \<Rightarrow> error + val" where
  "attr_subscript d k = (case d k of None \<Rightarrow> Inl KeyError | Some v \<Rightarrow> Inr v)"

definition attr_get :: "attrs \<Rightarrow> string \<Rightarrow> val" where
  "attr_get d k = (case d k of None \<Rightarrow> VNone | Some v \<Rightarrow> v)"

definition distinct_keys :: "('k \<times> 'v) list \<Rightarrow> bool" where
  "distinct_keys d = distinct (map fst d)"

section \<open>Constants of \<open>pybel.constants\<close>\<close>

text \<open>
  Modelled from the spec: the module \<open>pybel.constants\<close> is not among the sources. The
  keys below are the attribute names the spec gives for nodes (function, namespace, name,
  label, description), for edges (relation, citation, evidence, annotations) and for the
  graph-level registries (document metadata, namespace URL/OWL/pattern, annotation
  URL/OWL/pattern, annotation list), and the key of the library version. All that the
  development uses of them is that they are pairwise different strings.
\<close>

definition FUNCTION :: string where "FUNCTION = ''function''"
definition NAMESPACE :: string where "NAMESPACE = ''namespace''"
definition NAME :: string where "NAME = ''name''"
definition LABEL :: string where "LABEL = ''label''"
definition DESCRIPTION :: string where "DESCRIPTION = ''description''"
definition RELATION :: string where "RELATION = ''relation''"
definition CITATION :: string where "CITATION = ''citation''"
definition EVIDENCE :: string where "EVIDENCE = ''evidence''"
definition ANNOTATIONS :: string where "ANNOTATIONS = ''annotations''"
definition GRAPH_METADATA :: string where "GRAPH_METADATA = ''document_metadata''"
definition GRAPH_PYBEL_VERSION :: string where "GRAPH_PYBEL_VERSION = ''pybel_version''"
definition GRAPH_NAMESPACE_URL :: string where "GRAPH_NAMESPACE_URL = ''namespace_url''"
definition GRAPH_NAMESPACE_OWL :: string where "GRAPH_NAMESPACE_OWL = ''namespace_owl''"
definition GRAPH_NAMESPACE_PATTERN :: string where
  "GRAPH_NAMESPACE_PATTERN = ''namespace_pattern''"
definition GRAPH_ANNOTATION_URL :: string where "GRAPH_ANNOTATION_URL = ''annotation_url''"
definition GRAPH_ANNOTATION_OWL :: string where "GRAPH_ANNOTATION_OWL = ''annotation_owl''"
definition GRAPH_ANNOTATION_PATTERN :: string where
  "GRAPH_ANNOTATION_PATTERN = ''annotation_pattern''"
definition GRAPH_ANNOTATION_LIST :: string where
  "GRAPH_ANNOTATION_LIST = ''annotation_list''"

section \<open>The graph object\<close>

text \<open>
  \<open>BELGraph\<close> extends \<open>networkx.MultiDiGraph\<close> (networkx 1.x: \<open>nodes_iter\<close>, \<open>edges_iter\<close>,
  \<open>self.edge\<close>, \<open>attr_dict\<close>). The fields are those the class reads and writes:
  \<open>self.graph\<close> (here \<open>graph_attrs\<close>), \<open>self.node\<close>, \<open>self.edge\<close> (the successor adjacency
  \<open>node \<rightarrow> neighbour \<rightarrow> key \<rightarrow> data\<close>), \<open>self._warnings\<close> and \<open>self.has_singleton_terms\<close>. The
  predecessor adjacency of networkx mirrors \<open>self.edge\<close> and shares its key dictionaries;
  nothing in the class reads it, so it is left out.
\<close>

datatype exc = Exc string

type_synonym keydict = "(int \<times> attrs) list"
type_synonym 'n adjdict = "('n \<times> keydict) list"
type_synonym warning = "int \<times> string \<times> exc \<times> attrs"

record 'n BELGraph =
  graph_attrs :: attrs
  node :: "('n \<times> attrs) list"
  edge :: "('n \<times> 'n adjdict) list"
  warnings :: "warning list"
  has_singleton_terms :: bool

subsection \<open>Construction\<close>

text \<open>
  \<open>MultiDiGraph.__init__(data=None, **attr)\<close> starts from empty dictionaries and then
  updates \<open>self.graph\<close> with the keyword arguments. Only \<open>data=None\<close> is modelled (the
  conversion of initial data belongs to networkx's \<open>convert\<close> module). \<open>BELGraph.__init__\<close>
  then sets the warning log and fills in each registry that is not yet a key of
  \<open>self.graph\<close>. The version string is the result of \<open>get_version()\<close> of \<open>pybel.utils\<close>,
  which is not among the sources: it is a parameter.
\<close>

definition MultiDiGraph_init :: "attrs \<Rightarrow> 'n BELGraph" where
  "MultiDiGraph_init attr =
     \<lparr>graph_attrs = Map.empty ++ attr, node = [], edge = [], warnings = [],
      has_singleton_terms = False\<rparr>"

definition init_graph_key :: "string \<Rightarrow> val \<Rightarrow> 'n BELGraph \<Rightarrow> 'n BELGraph" where
  "init_graph_key k v g =
     (if graph_attrs g k = None then g\<lparr>graph_attrs := (graph_attrs g)(k \<mapsto> v)\<rparr> else g)"

definition BELGraph_init :: "string \<Rightarrow> attrs \<Rightarrow> 'n BELGraph" where
  "BELGraph_init get_version kwargs =
     (let g0 = MultiDiGraph_init kwargs;
          g1 = g0\<lparr>warnings := []\<rparr>;
          g2 = init_graph_key GRAPH_METADATA (VDict fmempty) g1;
          g3 = init_graph_key GRAPH_PYBEL_VERSION (VStr get_version) g2;
          g4 = init_graph_key GRAPH_NAMESPACE_URL (VDict fmempty) g3;
          g5 = init_graph_key GRAPH_NAMESPACE_OWL (VDict fmempty) g4;
          g6 = init_graph_key GRAPH_NAMESPACE_PATTERN (VDict fmempty) g5;
          g7 = init_graph_key GRAPH_ANNOTATION_URL (VDict fmempty) g6;
          g8 = init_graph_key GRAPH_ANNOTATION_OWL (VDict fmempty) g7;
          g9 = init_graph_key GRAPH_ANNOTATION_PATTERN (VDict fmempty) g8;
          g10 = init_graph_key GRAPH_ANNOTATION_LIST (VDict fmempty) g9
      in g10\<lparr>has_singleton_terms := False\<rparr>)"

subsection \<open>Properties\<close>

definition document :: "'n BELGraph \<Rightarrow> error + val" where
  "document g = attr_subscript (graph_attrs g) GRAPH_METADATA"

definition namespace_url :: "'n BELGraph \<Rightarrow> error + val" where
  "namespace_url g = attr_subscript (graph_attrs g) GRAPH_NAMESPACE_URL"

definition namespace_owl :: "'n BELGraph \<Rightarrow> error + val" where
  "namespace_owl g = attr_subscript (graph_attrs g) GRAPH_NAMESPACE_OWL"

definition namespace_pattern :: "'n BELGraph \<Rightarrow> error + val" where
  "namespace_pattern g = attr_subscript (graph_attrs g) GRAPH_NAMESPACE_PATTERN"

definition annotation_url :: "'n BELGraph \<Rightarrow> error + val" where
  "annotation_url g = attr_subscript (graph_attrs g) GRAPH_ANNOTATION_URL"

definition annotation_owl :: "'n BELGraph \<Rightarrow> error + val" where
  "annotation_owl g = attr_subscript (graph_attrs g) GRAPH_ANNOTATION_OWL"

definition annotation_pattern :: "'n BELGraph \<Rightarrow> error + val" where
  "annotation_pattern g = attr_subscript (graph_attrs g) GRAPH_ANNOTATION_PATTERN"

definition annotation_list :: "'n BELGraph \<Rightarrow> error + val" where
  "annotation_list g = attr_subscript (graph_attrs g) GRAPH_ANNOTATION_LIST"

definition pybel_version :: "'n BELGraph \<Rightarrow> error + val" where
  "pybel_version g = attr_subscript (graph_attrs g) GRAPH_PYBEL_VERSION"

subsection \<open>The warning log\<close>

text \<open>
  \<open>add_warning(line_number, line, exception, context=None)\<close> appends one 4-tuple to
  \<open>self.warnings\<close>; the context is a dictionary or \<open>None\<close>, and \<open>None\<close> is replaced by
  \<open>{}\<close>.
\<close>

definition add_warning ::
  "'n BELGraph \<Rightarrow> int \<Rightarrow> string \<Rightarrow> exc \<Rightarrow> attrs option \<Rightarrow> 'n BELGraph" where
  "add_warning g line_number line exception context =
     g\<lparr>warnings := warnings g @
        [(line_number, line, exception,
          (case context of None \<Rightarrow> Map.empty | Some c \<Rightarrow> c))]\<rparr>"

subsection \<open>networkx: membership, nodes and edges\<close>

text \<open>
  The methods inherited from \<open>MultiDiGraph\<close> that the class calls, as networkx 1.x defines
  them (\<open>Graph.__contains__\<close>, \<open>DiGraph.add_node\<close>, \<open>MultiDiGraph.add_edge\<close>,
  \<open>MultiGraph.has_edge\<close>, \<open>Graph.nodes_iter\<close>, \<open>MultiDiGraph.edges_iter\<close>). A method that
  updates a dictionary it was handed (\<open>attr_dict.update(attr)\<close>) returns that dictionary's
  new contents next to the graph, so that the caller can see what happened to its own
  object. \<open>n in self\<close> reads \<open>self.node\<close>; \<open>add_node\<close> and \<open>add_edge\<close> test \<open>self.succ\<close>,
  which is \<open>self.edge\<close>. For a new node \<open>add_node\<close> stores the handed dictionary itself as
  the node's data; the model stores its contents, which is the same as long as nobody
  writes to that dictionary, and the functions modelled here that call \<open>add_node\<close> with an
  \<open>attr_dict\<close> do not. An error result stands for the exception and carries no state.
\<close>

definition graph_contains :: "'n BELGraph \<Rightarrow> 'n \<Rightarrow> bool" where
  "graph_contains g n = dict_in (node g) n"

definition updated_attr_dict :: "attrs option \<Rightarrow> attrs \<Rightarrow> attrs option" where
  "updated_attr_dict attr_dict attr =
     (case attr_dict of None \<Rightarrow> None | Some a \<Rightarrow> Some (a ++ attr))"

definition effective_attr_dict :: "attrs option \<Rightarrow> attrs \<Rightarrow> attrs" where
  "effective_attr_dict attr_dict attr =
     (case attr_dict of None \<Rightarrow> attr | Some a \<Rightarrow> a ++ attr)"

definition add_node ::
  "'n BELGraph \<Rightarrow> 'n \<Rightarrow> attrs option \<Rightarrow> attrs \<Rightarrow> error + 'n BELGraph \<times> attrs option" where
  "add_node g n attr_dict attr =
     (let ad = effective_attr_dict attr_dict attr
      in if \<not> dict_in (edge g) n
         then Inr (g\<lparr>edge := AList.update n [] (edge g), node := AList.update n ad (node g)\<rparr>,
                   updated_attr_dict attr_dict attr)
         else (case subscript (node g) n of
                 Inl e \<Rightarrow> Inl e
               | Inr old \<Rightarrow>
                   Inr (g\<lparr>node := AList.update n (old ++ ad) (node g)\<rparr>,
                        updated_attr_dict attr_dict attr)))"

text \<open>
  The key of a new edge when none is given: \<open>key = len(keydict)\<close>, then
  \<open>while key in keydict: key += 1\<close>. The loop ends because the key dictionary is finite.
\<close>

function fresh_key :: "keydict \<Rightarrow> int \<Rightarrow> int" where
  "fresh_key keydict key =
     (if dict_in keydict key then fresh_key keydict (key + 1) else key)"
  by pat_completeness auto
termination
proof (relation "measure (\<lambda>(keydict, key). card {j \<in> fst ` set keydict. key \<le> j})")
  show "wf (measure (\<lambda>(keydict, key). card {j \<in> fst ` set keydict. key \<le> j}))"
    by simp
next
  fix keydict :: keydict and key :: int
  assume "dict_in keydict key"
  then have mem: "key \<in> fst ` set keydict"
    by (simp add: dict_in_def map_of_eq_None_iff)
  have "key \<in> {j \<in> fst ` set keydict. key \<le> j}"
    and "key \<notin> {j \<in> fst ` set keydict. key + 1 \<le> j}"
    and "{j \<in> fst ` set keydict. key + 1 \<le> j} \<subseteq> {j \<in> fst ` set keydict. key \<le> j}"
    using mem by auto
  then have "{j \<in> fst ` set keydict. key + 1 \<le> j} \<subset> {j \<in> fst ` set keydict. key \<le> j}"
    by blast
  then have "card {j \<in> fst ` set keydict. key + 1 \<le> j} < card {j \<in> fst ` set keydict. key \<le> j}"
    by (intro psubset_card_mono) simp_all
  then show "((keydict, key + 1), (keydict, key))
      \<in> measure (\<lambda>(keydict, key). card {j \<in> fst ` set keydict. key \<le> j})"
    by simp
qed

declare fresh_key.simps [simp del]

definition ensure_node :: "'n \<Rightarrow> 'n BELGraph \<Rightarrow> 'n BELGraph" where
  "ensure_node u g =
     (if \<not> dict_in (edge g) u
      then g\<lparr>edge := AList.update u [] (edge g), node := AList.update u Map.empty (node g)\<rparr>
      else g)"

definition add_edge ::
  "'n BELGraph \<Rightarrow> 'n \<Rightarrow> 'n \<Rightarrow> int option \<Rightarrow> attrs option \<Rightarrow> attrs
     \<Rightarrow> 'n BELGraph \<times> attrs option" where
  "add_edge g u v key attr_dict attr =
     (let ad = effective_attr_dict attr_dict attr;
          g1 = ensure_node u g;
          g2 = ensure_node v g1;
          nbrs = (case map_of (edge g2) u of None \<Rightarrow> [] | Some a \<Rightarrow> a)
      in (case map_of nbrs v of
            Some keydict \<Rightarrow>
              (let key' = (case key of None \<Rightarrow> fresh_key keydict (int (length keydict))
                                     | Some k \<Rightarrow> k);
                   datadict = (case map_of keydict key' of None \<Rightarrow> Map.empty | Some d \<Rightarrow> d) ++ ad
               in (g2\<lparr>edge := AList.update u
                            (AList.update v (AList.update key' datadict keydict) nbrs) (edge g2)\<rparr>,
                   updated_attr_dict attr_dict attr))
          | None \<Rightarrow>
              (let key' = (case key of None \<Rightarrow> 0 | Some k \<Rightarrow> k);
                   datadict = Map.empty ++ ad
               in (g2\<lparr>edge := AList.update u (AList.update v [(key', datadict)] nbrs) (edge g2)\<rparr>,
                   updated_attr_dict attr_dict attr))))"

text \<open>
  In \<open>add_edge\<close> the node \<open>u\<close> is a key of \<open>self.succ\<close> once \<open>ensure_node\<close> has run, so the
  \<open>None\<close> case of \<open>nbrs\<close> is never taken (lemma \<open>ensure_node_in\<close> below).
  \<open>has_edge\<close> catches the \<open>KeyError\<close> of a missing node and answers \<open>False\<close>.
\<close>

definition has_edge :: "'n BELGraph \<Rightarrow> 'n \<Rightarrow> 'n \<Rightarrow> int option \<Rightarrow> bool" where
  "has_edge g u v key =
     (case subscript (edge g) u of
        Inl e \<Rightarrow> False
      | Inr nbrs \<Rightarrow>
          (case key of
             None \<Rightarrow> dict_in nbrs v
           | Some k \<Rightarrow> (case subscript nbrs v of Inl e \<Rightarrow> False | Inr keydict \<Rightarrow> dict_in keydict k)))"

text \<open>
  \<open>MultiDiGraph.nodes_iter(data=True)\<close> and \<open>MultiDiGraph.edges_iter(nbunch, data=True,
  keys=True)\<close>, the two calls the class makes: the items of \<open>self.node\<close>, and the triple loop
  over the adjacency, restricted to the nodes of \<open>nbunch\<close> that are in the graph when
  \<open>nbunch\<close> is given (a list of nodes; a single node is the list of that node). The
  \<open>default\<close> argument is read only when \<open>data\<close> names an attribute, which the class never
  asks for, so it is left out.
\<close>

definition MultiDiGraph_nodes_iter :: "'n BELGraph \<Rightarrow> ('n \<times> attrs) list" where
  "MultiDiGraph_nodes_iter g = node g"

definition nodes_nbrs :: "'n BELGraph \<Rightarrow> 'n list option \<Rightarrow> ('n \<times> 'n adjdict) list" where
  "nodes_nbrs g nbunch =
     (case nbunch of
        None \<Rightarrow> edge g
      | Some ns \<Rightarrow> concat (map (\<lambda>n. case map_of (edge g) n of None \<Rightarrow> [] | Some a \<Rightarrow> [(n, a)]) ns))"

definition MultiDiGraph_edges_iter ::
  "'n BELGraph \<Rightarrow> 'n list option \<Rightarrow> ('n \<times> 'n \<times> int \<times> attrs) list" where
  "MultiDiGraph_edges_iter g nbunch =
     [(n, nbr, key, ddict). (n, nbrs) \<leftarrow> nodes_nbrs g nbunch, (nbr, keydict) \<leftarrow> nbrs,
                            (key, ddict) \<leftarrow> keydict]"

subsection \<open>Filtered iteration\<close>

text \<open>
  Modelled from the spec: \<open>subdict_matches\<close> of \<open>pybel.utils\<close> is not among the sources.
  The spec calls it a sub-dictionary match: every constraint key must be present in the
  target with an equal value, extra attributes of the target are ignored. The constraints
  are the keyword arguments of the call, a dictionary that is iterated.
\<close>

definition subdict_matches :: "attrs \<Rightarrow> (string \<times> val) list \<Rightarrow> bool" where
  "subdict_matches target query = list_all (\<lambda>(k, v). target k = Some v) query"

datatype 'n node_item = N 'n | ND 'n attrs

datatype 'n edge_item = UV 'n 'n | UVK 'n 'n int | UVD 'n 'n attrs | UVKD 'n 'n int attrs

definition edges_iter ::
  "'n BELGraph \<Rightarrow> 'n list option \<Rightarrow> bool \<Rightarrow> bool \<Rightarrow> (string \<times> val) list \<Rightarrow> 'n edge_item list" where
  "edges_iter g nbunch data keys kwargs =
     concat (map (\<lambda>(u, v, k, d).
        if \<not> subdict_matches d kwargs then []
        else if keys \<and> data then [UVKD u v k d]
        else if data then [UVD u v d]
        else if keys then [UVK u v k]
        else [UV u v]) (MultiDiGraph_edges_iter g nbunch))"

definition nodes_iter :: "'n BELGraph \<Rightarrow> bool \<Rightarrow> (string \<times> val) list \<Rightarrow> 'n node_item list" where
  "nodes_iter g data kwargs =
     concat (map (\<lambda>(n, d).
        if \<not> subdict_matches d kwargs then []
        else if data then [ND n d]
        else [N n]) (MultiDiGraph_nodes_iter g))"

subsection \<open>Nodes and edges of a BEL graph\<close>

text \<open>
  \<open>unqualified_edge_code\<close> is a table of \<open>pybel.constants\<close>, from relation names to the
  reserved edge keys; it is not among the sources and is a parameter.
\<close>

definition add_unqualified_edge ::
  "(string \<rightharpoonup> int) \<Rightarrow> 'n BELGraph \<Rightarrow> 'n \<Rightarrow> 'n \<Rightarrow> string \<Rightarrow> error + 'n BELGraph" where
  "add_unqualified_edge unqualified_edge_code g u v relation =
     (case unqualified_edge_code relation of
        None \<Rightarrow> Inl KeyError
      | Some key \<Rightarrow>
          if \<not> has_edge g u v (Some key)
          then Inr (fst (add_edge g u v (Some key) None
                      [RELATION \<mapsto> VStr relation, ANNOTATIONS \<mapsto> VDict fmempty]))
          else Inr g)"

definition add_simple_node ::
  "(string \<times> string \<times> string) BELGraph \<Rightarrow> string \<Rightarrow> string \<Rightarrow> string
     \<Rightarrow> error + (string \<times> string \<times> string) BELGraph" where
  "add_simple_node g function namespace name =
     (let node = (function, namespace, name)
      in if \<not> graph_contains g node
         then map_sum id fst (add_node g node None
                [FUNCTION \<mapsto> VStr function, NAMESPACE \<mapsto> VStr namespace, NAME \<mapsto> VStr name])
         else Inr g)"

definition edge_data :: "'n BELGraph \<Rightarrow> 'n \<Rightarrow> 'n \<Rightarrow> int \<Rightarrow> error + attrs" where
  "edge_data g u v key =
     (case subscript (edge g) u of
        Inl e \<Rightarrow> Inl e
      | Inr nbrs \<Rightarrow>
          (case subscript nbrs v of
             Inl e \<Rightarrow> Inl e
           | Inr keydict \<Rightarrow> subscript keydict key))"

definition get_edge_citation :: "'n BELGraph \<Rightarrow> 'n \<Rightarrow> 'n \<Rightarrow> int \<Rightarrow> error + val" where
  "get_edge_citation g u v key =
     (case edge_data g u v key of Inl e \<Rightarrow> Inl e | Inr d \<Rightarrow> attr_subscript d CITATION)"

definition get_edge_evidence :: "'n BELGraph \<Rightarrow> 'n \<Rightarrow> 'n \<Rightarrow> int \<Rightarrow> error + val" where
  "get_edge_evidence g u v key =
     (case edge_data g u v key of Inl e \<Rightarrow> Inl e | Inr d \<Rightarrow> attr_subscript d EVIDENCE)"

definition get_edge_annotations :: "'n BELGraph \<Rightarrow> 'n \<Rightarrow> 'n \<Rightarrow> int \<Rightarrow> error + val" where
  "get_edge_annotations g u v key =
     (case edge_data g u v key of Inl e \<Rightarrow> Inl e | Inr d \<Rightarrow> attr_subscript d ANNOTATIONS)"

definition get_node_name :: "'n BELGraph \<Rightarrow> 'n \<Rightarrow> error + val" where
  "get_node_name g n =
     (case subscript (node g) n of Inl e \<Rightarrow> Inl e | Inr d \<Rightarrow> Inr (attr_get d NAME))"

definition get_node_label :: "'n BELGraph \<Rightarrow> 'n \<Rightarrow> error + val" where
  "get_node_label g n =
     (case subscript (node g) n of Inl e \<Rightarrow> Inl e | Inr d \<Rightarrow> Inr (attr_get d LABEL))"

definition set_node_label :: "'n BELGraph \<Rightarrow> 'n \<Rightarrow> val \<Rightarrow> error + 'n BELGraph" where
  "set_node_label g n label =
     (case subscript (node g) n of
        Inl e \<Rightarrow> Inl e
      | Inr d \<Rightarrow> Inr (g\<lparr>node := AList.update n (d(LABEL \<mapsto> label)) (node g)\<rparr>))"

definition get_node_description :: "'n BELGraph \<Rightarrow> 'n \<Rightarrow> error + val" where
  "get_node_description g n =
     (case subscript (node g) n of Inl e \<Rightarrow> Inl e | Inr d \<Rightarrow> Inr (attr_get d DESCRIPTION))"

definition set_node_description :: "'n BELGraph \<Rightarrow> 'n \<Rightarrow> val \<Rightarrow> error + 'n BELGraph" where
  "set_node_description g n description =
     (case subscript (node g) n of
        Inl e \<Rightarrow> Inl e
      | Inr d \<Rightarrow> Inr (g\<lparr>node := AList.update n (d(DESCRIPTION \<mapsto> description)) (node g)\<rparr>))"

section \<open>Merging two graphs\<close>

text \<open>
  \<open>left_full_merge(g, h)\<close> changes \<open>g\<close> in place and hands dictionaries of \<open>h\<close> to
  \<open>add_node\<close> and \<open>add_edge\<close> as \<open>attr_dict\<close>, which update them with the (empty) keyword
  arguments. The state is therefore the pair of both graphs: each loop returns the new
  \<open>g\<close> and the new \<open>h\<close>, the latter with the handed dictionary's contents after the call
  written back at its place. The two graphs are taken to be different objects that share
  no dictionary. The loops run over what \<open>h.nodes_iter()\<close> and
  \<open>h.edges_iter(keys=True, data=True)\<close> yield, which are bare nodes and
  \<open>(u, v, k, d)\<close> tuples; an item of another shape could not be used as a node or
  unpacked into four names, and is an error.
\<close>

definition store_node_data :: "'n BELGraph \<Rightarrow> 'n \<Rightarrow> attrs option \<Rightarrow> 'n BELGraph" where
  "store_node_data h n a =
     (case a of None \<Rightarrow> h | Some d \<Rightarrow> h\<lparr>node := AList.map_entry n (\<lambda>_. d) (node h)\<rparr>)"

definition store_edge_data ::
  "'n BELGraph \<Rightarrow> 'n \<Rightarrow> 'n \<Rightarrow> int \<Rightarrow> attrs option \<Rightarrow> 'n BELGraph" where
  "store_edge_data h u v k a =
     (case a of
        None \<Rightarrow> h
      | Some d \<Rightarrow>
          h\<lparr>edge := AList.map_entry u (AList.map_entry v (AList.map_entry k (\<lambda>_. d))) (edge h)\<rparr>)"

fun merge_nodes ::
  "'n BELGraph \<Rightarrow> 'n BELGraph \<Rightarrow> 'n node_item list \<Rightarrow> error + 'n BELGraph \<times> 'n BELGraph" where
  "merge_nodes g h [] = Inr (g, h)"
| "merge_nodes g h (N n # rest) =
     (if \<not> graph_contains g n
      then (case subscript (node h) n of
              Inl e \<Rightarrow> Inl e
            | Inr hn \<Rightarrow>
                (case add_node g n (Some hn) Map.empty of
                   Inl e \<Rightarrow> Inl e
                 | Inr (g', hn') \<Rightarrow> merge_nodes g' (store_node_data h n hn') rest))
      else merge_nodes g h rest)"
| "merge_nodes g h (ND n d # rest) = Inl TypeError"

fun merge_edges ::
  "'n BELGraph \<Rightarrow> 'n BELGraph \<Rightarrow> 'n edge_item list \<Rightarrow> error + 'n BELGraph \<times> 'n BELGraph" where
  "merge_edges g h [] = Inr (g, h)"
| "merge_edges g h (UVKD u v k d # rest) =
     (if k < 0
      then (case subscript (edge g) u of
              Inl e \<Rightarrow> Inl e
            | Inr gu \<Rightarrow>
                if (case map_of gu v of None \<Rightarrow> True | Some keydict \<Rightarrow> \<not> dict_in keydict k)
                then (case add_edge g u v (Some k) (Some d) Map.empty of
                        (g', d') \<Rightarrow> merge_edges g' (store_edge_data h u v k d') rest)
                else merge_edges g h rest)
      else (case subscript (edge g) u of
              Inl e \<Rightarrow> Inl e
            | Inr gu \<Rightarrow>
                (case map_of gu v of
                   None \<Rightarrow>
                     (case add_edge g u v None (Some d) Map.empty of
                        (g', d') \<Rightarrow> merge_edges g' (store_edge_data h u v k d') rest)
                 | Some keydict \<Rightarrow>
                     if list_ex (\<lambda>(gk, gd). 0 \<le> gk \<and> d = gd) keydict
                     then merge_edges g h rest
                     else (case add_edge g u v None (Some d) Map.empty of
                             (g', d') \<Rightarrow> merge_edges g' (store_edge_data h u v k d') rest))))"
| "merge_edges g h (e # rest) = Inl ValueError"

definition left_full_merge ::
  "'n BELGraph \<Rightarrow> 'n BELGraph \<Rightarrow> error + 'n BELGraph \<times> 'n BELGraph" where
  "left_full_merge g h =
     (case merge_nodes g h (nodes_iter h False []) of
        Inl e \<Rightarrow> Inl e
      | Inr (g1, h1) \<Rightarrow> merge_edges g1 h1 (edges_iter h1 None True True []))"

section \<open>Well-formed graphs and what the proofs speak about\<close>

text \<open>
  A Python dictionary has each key once, and networkx keeps the keys of \<open>self.succ\<close> equal
  to those of \<open>self.node\<close>. An association list can break both, so the graphs that stand
  for Python objects are the well-formed ones: every structural dictionary has distinct
  keys, and \<open>self.edge\<close> and \<open>self.node\<close> have the same key set. The empty graph is
  well-formed and \<open>add_node\<close>, \<open>add_edge\<close> keep graphs well-formed (lemmas \<open>wf_add_node\<close>,
  \<open>wf_add_edge\<close>).
\<close>

definition wf_graph :: "'n BELGraph \<Rightarrow> bool" where
  "wf_graph g =
     (distinct_keys (node g) \<and> distinct_keys (edge g) \<and>
      list_all (\<lambda>(u, nbrs). distinct_keys nbrs \<and>
                  list_all (\<lambda>(v, keydict). distinct_keys keydict) nbrs) (edge g) \<and>
      set (map fst (edge g)) = set (map fst (node g)))"

text \<open>
  \<open>edge_lookup g u v k\<close> is \<open>g.edge[u][v][k]\<close> as an option, and \<open>adj g u\<close> is \<open>g.edge[u]\<close>
  with the empty dictionary for a missing node. \<open>key_for\<close> is the key \<open>add_edge\<close> ends up
  using and \<open>new_keydict\<close> the key dictionary it leaves between \<open>u\<close> and \<open>v\<close>.
\<close>

definition edge_lookup :: "'n BELGraph \<Rightarrow> 'n \<Rightarrow> 'n \<Rightarrow> int \<Rightarrow> attrs option" where
  "edge_lookup g u v k =
     (case map_of (edge g) u of
        None \<Rightarrow> None
      | Some nbrs \<Rightarrow> (case map_of nbrs v of None \<Rightarrow> None | Some keydict \<Rightarrow> map_of keydict k))"

definition adj :: "'n BELGraph \<Rightarrow> 'n \<Rightarrow> 'n adjdict" where
  "adj g u = (case map_of (edge g) u of None \<Rightarrow> [] | Some a \<Rightarrow> a)"

definition key_for :: "keydict option \<Rightarrow> int option \<Rightarrow> int" where
  "key_for old key =
     (case key of
        Some k \<Rightarrow> k
      | None \<Rightarrow> (case old of None \<Rightarrow> 0 | Some keydict \<Rightarrow> fresh_key keydict (int (length keydict))))"

definition new_keydict :: "keydict option \<Rightarrow> int option \<Rightarrow> attrs \<Rightarrow> keydict" where
  "new_keydict old key ad =
     (case old of
        None \<Rightarrow> [(key_for old key, Map.empty ++ ad)]
      | Some keydict \<Rightarrow>
          AList.update (key_for old key)
            ((case map_of keydict (key_for old key) of None \<Rightarrow> Map.empty | Some d \<Rightarrow> d) ++ ad)
            keydict)"

text \<open>
  The effect of the merge loops. \<open>edge_step g g1 u v k d\<close>: one round of the edge loop, for
  the donor edge \<open>(u, v, k, d)\<close>, took \<open>g\<close> to \<open>g1\<close>; at most one entry was added, with
  data \<open>d\<close>, at the donor's key when that is negative and at a non-negative key
  otherwise. \<open>edges_merged\<close> is the same for the whole loop and \<open>merged\<close> for the whole
  function.
\<close>

definition edge_step ::
  "'n BELGraph \<Rightarrow> 'n BELGraph \<Rightarrow> 'n \<Rightarrow> 'n \<Rightarrow> int \<Rightarrow> attrs \<Rightarrow> bool" where
  "edge_step g g1 u v k d =
     (wf_graph g1 \<and>
      (\<forall>n a. map_of (node g) n = Some a \<longrightarrow> map_of (node g1) n = Some a) \<and>
      (\<forall>n. dict_in (edge g) n \<longrightarrow> dict_in (edge g1) n) \<and>
      (\<forall>u' v' k'. edge_lookup g1 u' v' k' = edge_lookup g u' v' k' \<or>
          (u' = u \<and> v' = v \<and> edge_lookup g u v k' = None \<and> edge_lookup g1 u v k' = Some d \<and>
           (if k < 0 then k' = k else 0 \<le> k'))) \<and>
      (if k < 0 then edge_lookup g1 u v k \<noteq> None else \<exists>gk\<ge>0. edge_lookup g1 u v gk = Some d) \<and>
      warnings g1 = warnings g \<and> graph_attrs g1 = graph_attrs g \<and>
      has_singleton_terms g1 = has_singleton_terms g)"

definition edges_merged ::
  "'n BELGraph \<Rightarrow> 'n BELGraph \<Rightarrow> ('n \<times> 'n \<times> int \<times> attrs) list \<Rightarrow> bool" where
  "edges_merged g g' es =
     (wf_graph g' \<and>
      (\<forall>n a. map_of (node g) n = Some a \<longrightarrow> map_of (node g') n = Some a) \<and>
      (\<forall>n. dict_in (edge g) n \<longrightarrow> dict_in (edge g') n) \<and>
      (\<forall>u v k a. edge_lookup g u v k = Some a \<longrightarrow> edge_lookup g' u v k = Some a) \<and>
      (\<forall>(u, v, k, d) \<in> set es.
          if k < 0
          then edge_lookup g' u v k \<noteq> None \<and>
               (edge_lookup g u v k = None \<longrightarrow> edge_lookup g' u v k = Some d)
          else \<exists>gk\<ge>0. edge_lookup g' u v gk = Some d) \<and>
      warnings g' = warnings g \<and> graph_attrs g' = graph_attrs g \<and>
      has_singleton_terms g' = has_singleton_terms g)"

definition merged ::
  "'n BELGraph \<Rightarrow> 'n BELGraph \<Rightarrow> 'n BELGraph \<Rightarrow> bool" where
  "merged g h g' =
     (wf_graph g' \<and>
      (\<forall>n a. map_of (node g) n = Some a \<longrightarrow> map_of (node g') n = Some a) \<and>
      (\<forall>n a. \<not> dict_in (node g) n \<and> map_of (node h) n = Some a \<longrightarrow>
          map_of (node g') n = Some a) \<and>
      (\<forall>n. dict_in (node g) n \<or> dict_in (node h) n \<longrightarrow> dict_in (edge g') n) \<and>
      (\<forall>u v k a. edge_lookup g u v k = Some a \<longrightarrow> edge_lookup g' u v k = Some a) \<and>
      (\<forall>u v k d. edge_lookup h u v k = Some d \<longrightarrow>
          (if k < 0
           then edge_lookup g' u v k \<noteq> None \<and>
                (edge_lookup g u v k = None \<longrightarrow> edge_lookup g' u v k = Some d)
           else \<exists>gk\<ge>0. edge_lookup g' u v gk = Some d)) \<and>
      warnings g' = warnings g \<and> graph_attrs g' = graph_attrs g \<and>
      has_singleton_terms g' = has_singleton_terms g)"

text \<open>
  What the merge may add. \<open>edge_step_frame\<close>: one round of the edge loop leaves every
  edge entry as it was, or adds exactly one entry, with the donor's data, between the
  donor's nodes, under a key that was free: the donor's key when it is negative, and a
  non-negative key when it is not, and then only when no entry with a non-negative key
  between these nodes had the same data; the only node it can create is the target, with
  empty data. \<open>edges_frame\<close> and \<open>merge_frame\<close> say the same of the whole loop and of the
  whole function: every entry of the result is an entry of the receiver or accounted for
  by a donor edge, and two entries with non-negative keys and equal data between the same
  nodes were both in the receiver already.
\<close>

definition edge_step_frame ::
  "'n BELGraph \<Rightarrow> 'n BELGraph \<Rightarrow> 'n \<Rightarrow> 'n \<Rightarrow> int \<Rightarrow> attrs \<Rightarrow> bool" where
  "edge_step_frame g g1 u v k d =
     ((\<forall>n. map_of (node g1) n = map_of (node g) n \<or>
           (n = v \<and> map_of (node g) n = None \<and> map_of (node g1) n = Some Map.empty)) \<and>
      ((\<forall>u' v' k'. edge_lookup g1 u' v' k' = edge_lookup g u' v' k') \<or>
       (\<exists>K. edge_lookup g u v K = None \<and>
            (if k < 0 then K = k
             else 0 \<le> K \<and> (\<forall>gk\<ge>0. edge_lookup g u v gk \<noteq> Some d)) \<and>
            (\<forall>u' v' k'. edge_lookup g1 u' v' k' =
                (if u' = u \<and> v' = v \<and> k' = K then Some d else edge_lookup g u' v' k')))))"

definition edges_frame ::
  "'n BELGraph \<Rightarrow> 'n BELGraph \<Rightarrow> ('n \<times> 'n \<times> int \<times> attrs) list \<Rightarrow> bool" where
  "edges_frame g g' es =
     ((\<forall>n. map_of (node g') n = map_of (node g) n \<or>
           (map_of (node g) n = None \<and> map_of (node g') n = Some Map.empty \<and>
            (\<exists>u k d. (u, n, k, d) \<in> set es))) \<and>
      (\<forall>u v k' a. edge_lookup g' u v k' = Some a \<longrightarrow>
           edge_lookup g u v k' = Some a \<or>
           (edge_lookup g u v k' = None \<and>
            (\<exists>k. (u, v, k, a) \<in> set es \<and> (if k < 0 then k' = k else 0 \<le> k')))) \<and>
      (\<forall>u v k1 k2 a. 0 \<le> k1 \<and> 0 \<le> k2 \<and> k1 \<noteq> k2 \<and>
           edge_lookup g' u v k1 = Some a \<and> edge_lookup g' u v k2 = Some a \<longrightarrow>
           edge_lookup g u v k1 = Some a \<and> edge_lookup g u v k2 = Some a))"

definition merge_frame ::
  "'n BELGraph \<Rightarrow> 'n BELGraph \<Rightarrow> 'n BELGraph \<Rightarrow> bool" where
  "merge_frame g h g' =
     ((\<forall>n a. map_of (node g') n = Some a \<longrightarrow>
           map_of (node g) n = Some a \<or>
           (\<not> dict_in (node g) n \<and> map_of (node h) n = Some a) \<or>
           (\<not> dict_in (node g) n \<and> \<not> dict_in (node h) n \<and> a = Map.empty \<and>
            (\<exists>u k d. edge_lookup h u n k = Some d))) \<and>
      (\<forall>u v k' a. edge_lookup g' u v k' = Some a \<longrightarrow>
           edge_lookup g u v k' = Some a \<or>
           (edge_lookup g u v k' = None \<and>
            (\<exists>k. edge_lookup h u v k = Some a \<and> (if k < 0 then k' = k else 0 \<le> k')))) \<and>
      (\<forall>u v k1 k2 a. 0 \<le> k1 \<and> 0 \<le> k2 \<and> k1 \<noteq> k2 \<and>
           edge_lookup g' u v k1 = Some a \<and> edge_lookup g' u v k2 = Some a \<longrightarrow>
           edge_lookup g u v k1 = Some a \<and> edge_lookup g u v k2 = Some a))"

section \<open>Sequences of calls and counting\<close>

text \<open>
  A sequence of \<open>add_unqualified_edge\<close> calls on one graph, stopping at the first error as
  the exception would; and the number of times a given node, or a given edge key between
  two given nodes, comes up when the graph is iterated.
\<close>

fun add_unqualified_edges ::
  "(string \<rightharpoonup> int) \<Rightarrow> 'n BELGraph \<Rightarrow> ('n \<times> 'n \<times> string) list \<Rightarrow> error + 'n BELGraph" where
  "add_unqualified_edges unqualified_edge_code g [] = Inr g"
| "add_unqualified_edges unqualified_edge_code g ((u, v, relation) # calls) =
     (case add_unqualified_edge unqualified_edge_code g u v relation of
        Inl e \<Rightarrow> Inl e
      | Inr g' \<Rightarrow> add_unqualified_edges unqualified_edge_code g' calls)"

definition edge_count :: "'n BELGraph \<Rightarrow> 'n \<Rightarrow> 'n \<Rightarrow> int \<Rightarrow> nat" where
  "edge_count g u v key =
     length (filter (\<lambda>e. e = UVK u v key) (edges_iter g None False True []))"

definition node_count :: "'n BELGraph \<Rightarrow> 'n \<Rightarrow> nat" where
  "node_count g n = length (filter (\<lambda>x. x = N n) (nodes_iter g False []))"

section \<open>What an iteration yields\<close>

text \<open>
  The item that \<open>edges_iter\<close> yields for an edge, and \<open>nodes_iter\<close> for a node, under given
  \<open>data\<close> and \<open>keys\<close> flags: the tuple shapes of the four \<open>yield\<close> statements.
\<close>

definition edge_item :: "bool \<Rightarrow> bool \<Rightarrow> 'n \<times> 'n \<times> int \<times> attrs \<Rightarrow> 'n edge_item" where
  "edge_item data keys e =
     (case e of (u, v, k, d) \<Rightarrow>
        if keys \<and> data then UVKD u v k d
        else if data then UVD u v d
        else if keys then UVK u v k
        else UV u v)"

definition node_item :: "bool \<Rightarrow> 'n \<times> attrs \<Rightarrow> 'n node_item" where
  "node_item data e = (case e of (n, d) \<Rightarrow> if data then ND n d else N n)"

section \<open>Example graphs\<close>

text \<open>
  Small graphs over simple BEL nodes \<open>(function, namespace, name)\<close>, used to instantiate
  the results below. The receiver \<open>ex_g\<close> and the donor \<open>ex_h\<close> share the nodes \<open>ex_u\<close>
  (with different labels) and \<open>ex_v\<close>, share one qualified edge, and the donor has a node,
  a qualified edge and an unqualified edge of its own. \<open>cx_g\<close> and \<open>cx_h\<close> carry an edge
  under the same reserved key between the same nodes, with different data.
\<close>

definition ex_u :: "string \<times> string \<times> string" where
  "ex_u = (''Protein'', ''HGNC'', ''AKT1'')"

definition ex_v :: "string \<times> string \<times> string" where
  "ex_v = (''Protein'', ''HGNC'', ''EGFR'')"

definition ex_w :: "string \<times> string \<times> string" where
  "ex_w = (''Gene'', ''HGNC'', ''AKT1'')"

definition ex_unq :: attrs where
  "ex_unq = [RELATION \<mapsto> VStr ''hasVariant'', ANNOTATIONS \<mapsto> VDict fmempty]"

definition ex_unq2 :: attrs where
  "ex_unq2 = [RELATION \<mapsto> VStr ''transcribedTo'', ANNOTATIONS \<mapsto> VDict fmempty]"

definition ex_q1 :: attrs where
  "ex_q1 = [RELATION \<mapsto> VStr ''increases'', EVIDENCE \<mapsto> VStr ''first'',
            CITATION \<mapsto> VStr ''9611787'', ANNOTATIONS \<mapsto> VDict fmempty]"

definition ex_q2 :: attrs where
  "ex_q2 = [RELATION \<mapsto> VStr ''decreases'', EVIDENCE \<mapsto> VStr ''second'',
            CITATION \<mapsto> VStr ''9611787'', ANNOTATIONS \<mapsto> VDict fmempty]"

definition ex_g :: "(string \<times> string \<times> string) BELGraph" where
  "ex_g =
     \<lparr>graph_attrs = Map.empty,
      node = [(ex_u, [LABEL \<mapsto> VStr ''receiver'']), (ex_v, Map.empty)],
      edge = [(ex_u, [(ex_v, [(- 1, ex_unq), (0, ex_q1)])]), (ex_v, [])],
      warnings = [], has_singleton_terms = False\<rparr>"

definition ex_h :: "(string \<times> string \<times> string) BELGraph" where
  "ex_h =
     \<lparr>graph_attrs = Map.empty,
      node = [(ex_u, [LABEL \<mapsto> VStr ''donor'']), (ex_v, Map.empty), (ex_w, Map.empty)],
      edge = [(ex_u, [(ex_v, [(0, ex_q1), (1, ex_q2)]), (ex_w, [(- 2, ex_unq2)])]),
              (ex_v, []), (ex_w, [])],
      warnings = [], has_singleton_terms = False\<rparr>"

definition cx_d :: attrs where
  "cx_d = [RELATION \<mapsto> VStr ''hasVariant'', ANNOTATIONS \<mapsto> VDict fmempty,
           EVIDENCE \<mapsto> VStr ''curated'']"

definition cx_g :: "(string \<times> string \<times> string) BELGraph" where
  "cx_g =
     \<lparr>graph_attrs = Map.empty,
      node = [(ex_u, Map.empty), (ex_v, Map.empty)],
      edge = [(ex_u, [(ex_v, [(- 1, ex_unq)])]), (ex_v, [])],
      warnings = [], has_singleton_terms = False\<rparr>"

definition cx_h :: "(string \<times> string \<times> string) BELGraph" where
  "cx_h =
     \<lparr>graph_attrs = Map.empty,
      node = [(ex_u, Map.empty), (ex_v, Map.empty)],
      edge = [(ex_u, [(ex_v, [(- 1, cx_d)])]), (ex_v, [])],
      warnings = [], has_singleton_terms = False\<rparr>"

definition ex_code :: "string \<rightharpoonup> int" where
  "ex_code = [''hasVariant'' \<mapsto> - 1, ''transcribedTo'' \<mapsto> - 2]"

text \<open>What the merge of \<open>ex_h\<close> into \<open>ex_g\<close> leaves in the receiver.\<close>

definition ex_merged :: "(string \<times> string \<times> string) BELGraph" where
  "ex_merged =
     \<lparr>graph_attrs = Map.empty,
      node = [(ex_u, [LABEL \<mapsto> VStr ''receiver'']), (ex_v, Map.empty), (ex_w, Map.empty)],
      edge = [(ex_u, [(ex_v, [(- 1, ex_unq), (0, ex_q1), (2, ex_q2)]),
                      (ex_w, [(- 2, ex_unq2)])]),
              (ex_v, []), (ex_w, [])],
      warnings = [], has_singleton_terms = False\<rparr>"

section \<open>The citation date sanitizer\<close>

text \<open>
  Modelled from the spec: \<open>sanitize_date\<close> of \<open>pybel.manager.citation_utils\<close> is not among
  the sources (only its tests are). The spec gives seven input grammars, to be tried in
  this order, the first structural match winning: \<open>YYYY Mon DD\<close>, \<open>YYYY Mon DD-DD\<close>,
  \<open>YYYY Mon DD-Mon DD\<close>, \<open>YYYY Mon-Mon\<close>, \<open>YYYY Mon\<close>, \<open>YYYY Season\<close> and \<open>YYYY\<close>; the
  result is the first day named, as \<open>YYYY-MM-DD\<close>, and any other input gives the failure
  sentinel (\<open>None\<close>). A year is four digits, a day one or two digits, a month one of the
  twelve three-letter abbreviations, compared with case. The spec fixes the month of a
  season only for Spring (March); Summer, Fall or Autumn, and Winter are taken as June,
  September and December. The fields are separated by single spaces.
\<close>

fun split_on :: "char \<Rightarrow> string \<Rightarrow> string list" where
  "split_on c [] = [[]]"
| "split_on c (x # xs) =
     (if x = c then [] # split_on c xs
      else (case split_on c xs of [] \<Rightarrow> [[x]] | w # ws \<Rightarrow> (x # w) # ws))"

definition is_digit :: "char \<Rightarrow> bool" where
  "is_digit c = (c \<in> set ''0123456789'')"

definition is_year :: "string \<Rightarrow> bool" where
  "is_year y = (length y = 4 \<and> list_all is_digit y)"

definition is_day :: "string \<Rightarrow> bool" where
  "is_day d = ((length d = 1 \<or> length d = 2) \<and> list_all is_digit d)"

text \<open>The lexical classes of the grammars, and the three-letter month and season tables.\<close>

definition month_number :: "string \<Rightarrow> string option" where
  "month_number =
     map_of [(''Jan'', ''01''), (''Feb'', ''02''), (''Mar'', ''03''), (''Apr'', ''04''),
             (''May'', ''05''), (''Jun'', ''06''), (''Jul'', ''07''), (''Aug'', ''08''),
             (''Sep'', ''09''), (''Oct'', ''10''), (''Nov'', ''11''), (''Dec'', ''12'')]"

definition season_month :: "string \<Rightarrow> string option" where
  "season_month =
     map_of [(''Spring'', ''03''), (''Summer'', ''06''), (''Fall'', ''09''),
             (''Autumn'', ''09''), (''Winter'', ''12'')]"

definition pad2 :: "string \<Rightarrow> string" where
  "pad2 d = (if length d = 1 then CHR ''0'' # d else d)"

definition iso_string :: "string \<Rightarrow> string \<Rightarrow> string \<Rightarrow> string" where
  "iso_string y m d = y @ ''-'' @ m @ ''-'' @ d"

text \<open>One parser for each grammar of the spec, in the spec's order.\<close>

definition year_month_day :: "string \<Rightarrow> string option" where
  "year_month_day s =
     (case split_on CHR '' '' s of
        [y, m, d] \<Rightarrow>
          (case month_number m of
             Some mm \<Rightarrow> if is_year y \<and> is_day d then Some (iso_string y mm (pad2 d)) else None
           | None \<Rightarrow> None)
      | _ \<Rightarrow> None)"

definition year_month_day_range :: "string \<Rightarrow> string option" where
  "year_month_day_range s =
     (case split_on CHR '' '' s of
        [y, m, dd] \<Rightarrow>
          (case (month_number m, split_on CHR ''-'' dd) of
             (Some mm, [d1, d2]) \<Rightarrow>
               if is_year y \<and> is_day d1 \<and> is_day d2 then Some (iso_string y mm (pad2 d1)) else None
           | _ \<Rightarrow> None)
      | _ \<Rightarrow> None)"

definition year_month_day_month_day :: "string \<Rightarrow> string option" where
  "year_month_day_month_day s =
     (case split_on CHR '' '' s of
        [y, m, dm, d2] \<Rightarrow>
          (case (month_number m, split_on CHR ''-'' dm) of
             (Some mm, [d1, m2]) \<Rightarrow>
               if is_year y \<and> is_day d1 \<and> month_number m2 \<noteq> None \<and> is_day d2
               then Some (iso_string y mm (pad2 d1)) else None
           | _ \<Rightarrow> None)
      | _ \<Rightarrow> None)"

definition year_month_range :: "string \<Rightarrow> string option" where
  "year_month_range s =
     (case split_on CHR '' '' s of
        [y, ms] \<Rightarrow>
          (case split_on CHR ''-'' ms of
             [m1, m2] \<Rightarrow>
               (case month_number m1 of
                  Some mm \<Rightarrow>
                    if is_year y \<and> month_number m2 \<noteq> None then Some (iso_string y mm ''01'') else None
                | None \<Rightarrow> None)
           | _ \<Rightarrow> None)
      | _ \<Rightarrow> None)"

definition year_month :: "string \<Rightarrow> string option" where
  "year_month s =
     (case split_on CHR '' '' s of
        [y, m] \<Rightarrow>
          (case month_number m of
             Some mm \<Rightarrow> if is_year y then Some (iso_string y mm ''01'') else None
           | None \<Rightarrow> None)
      | _ \<Rightarrow> None)"

definition year_season :: "string \<Rightarrow> string option" where
  "year_season s =
     (case split_on CHR '' '' s of
        [y, season] \<Rightarrow>
          (case season_month season of
             Some mm \<Rightarrow> if is_year y then Some (iso_string y mm ''01'') else None
           | None \<Rightarrow> None)
      | _ \<Rightarrow> None)"

definition year_only :: "string \<Rightarrow> string option" where
  "year_only s = (if is_year s then Some (iso_string s ''01'' ''01'') else None)"

fun first_match :: "(string \<Rightarrow> string option) list \<Rightarrow> string \<Rightarrow> string option" where
  "first_match [] s = None"
| "first_match (p # ps) s = (case p s of Some r \<Rightarrow> Some r | None \<Rightarrow> first_match ps s)"

definition sanitize_date :: "string \<Rightarrow> string option" where
  "sanitize_date =
     first_match [year_month_day, year_month_day_range, year_month_day_month_day,
                  year_month_range, year_month, year_season, year_only]"

text \<open>The shape of a result: four digits, a dash, two digits, a dash, two digits.\<close>

definition two_digits :: "string \<Rightarrow> bool" where
  "two_digits x = (length x = 2 \<and> list_all is_digit x)"

definition iso_date :: "string \<Rightarrow> bool" where
  "iso_date r =
     (length r = 10 \<and> is_year (take 4 r) \<and> r ! 4 = CHR ''-'' \<and>
      two_digits (take 2 (drop 5 r)) \<and> r ! 7 = CHR ''-'' \<and>
      two_digits (drop 8 r))"

section \<open>Construction and the warning log: results\<close>

lemmas graph_keys =
  GRAPH_METADATA_def GRAPH_PYBEL_VERSION_def GRAPH_NAMESPACE_URL_def GRAPH_NAMESPACE_OWL_def
  GRAPH_NAMESPACE_PATTERN_def GRAPH_ANNOTATION_URL_def GRAPH_ANNOTATION_OWL_def
  GRAPH_ANNOTATION_PATTERN_def GRAPH_ANNOTATION_LIST_def

lemma init_graph_key_warnings: "warnings (init_graph_key k v g) = warnings g"
  by (simp add: init_graph_key_def)

lemma init_graph_key_fresh:
  "graph_attrs g = m \<Longrightarrow> m k = None \<Longrightarrow> graph_attrs (init_graph_key k v g) = m(k \<mapsto> v)"
  by (simp add: init_graph_key_def)

lemma BELGraph_init_graph_attrs:
  "graph_attrs (BELGraph_init ver Map.empty :: 'n BELGraph) =
     [GRAPH_METADATA \<mapsto> VDict fmempty, GRAPH_PYBEL_VERSION \<mapsto> VStr ver,
      GRAPH_NAMESPACE_URL \<mapsto> VDict fmempty, GRAPH_NAMESPACE_OWL \<mapsto> VDict fmempty,
      GRAPH_NAMESPACE_PATTERN \<mapsto> VDict fmempty, GRAPH_ANNOTATION_URL \<mapsto> VDict fmempty,
      GRAPH_ANNOTATION_OWL \<mapsto> VDict fmempty, GRAPH_ANNOTATION_PATTERN \<mapsto> VDict fmempty,
      GRAPH_ANNOTATION_LIST \<mapsto> VDict fmempty]"
  unfolding BELGraph_init_def Let_def
  apply simp
  apply (rule init_graph_key_fresh)+
           apply (simp add: MultiDiGraph_init_def)
          apply (simp_all add: graph_keys)
  done

lemma BELGraph_init_warnings: "warnings (BELGraph_init ver kwargs) = []"
  unfolding BELGraph_init_def Let_def
  by (simp add: init_graph_key_warnings)

text \<open>
  C9. A graph constructed with no initial data and no keyword arguments has every
  registry (document metadata, the three namespace registries, the three annotation
  registries, the annotation-list registry) present in \<open>self.graph\<close> with the empty
  dictionary as its value, so every registry property returns \<open>{}\<close> instead of raising
  \<open>KeyError\<close>; the warning log is the empty list.
\<close>

theorem BELGraph_init_registries_empty:
  "document (BELGraph_init ver Map.empty :: 'n BELGraph) = Inr (VDict fmempty) \<and>
   namespace_url (BELGraph_init ver Map.empty :: 'n BELGraph) = Inr (VDict fmempty) \<and>
   namespace_owl (BELGraph_init ver Map.empty :: 'n BELGraph) = Inr (VDict fmempty) \<and>
   namespace_pattern (BELGraph_init ver Map.empty :: 'n BELGraph) = Inr (VDict fmempty) \<and>
   annotation_url (BELGraph_init ver Map.empty :: 'n BELGraph) = Inr (VDict fmempty) \<and>
   annotation_owl (BELGraph_init ver Map.empty :: 'n BELGraph) = Inr (VDict fmempty) \<and>
   annotation_pattern (BELGraph_init ver Map.empty :: 'n BELGraph) = Inr (VDict fmempty) \<and>
   annotation_list (BELGraph_init ver Map.empty :: 'n BELGraph) = Inr (VDict fmempty) \<and>
   warnings (BELGraph_init ver Map.empty :: 'n BELGraph) = []"
  unfolding document_def namespace_url_def namespace_owl_def namespace_pattern_def
    annotation_url_def annotation_owl_def annotation_pattern_def annotation_list_def
    BELGraph_init_graph_attrs BELGraph_init_warnings attr_subscript_def
  by (simp add: graph_keys)

text \<open>
  C10. A call of \<open>add_warning\<close> appends exactly one entry, made of the line number, the
  line, the exception and the context, to the end of the warning log, and changes no other
  part of the graph; a context of \<open>None\<close> is stored as the empty dictionary, and a given
  dictionary is stored as it is, so the stored component is a dictionary in both cases.
\<close>

theorem add_warning_appends_one:
  "warnings (add_warning g n l e c) =
     warnings g @ [(n, l, e, (case c of None \<Rightarrow> Map.empty | Some m \<Rightarrow> m))] \<and>
   length (warnings (add_warning g n l e c)) = Suc (length (warnings g)) \<and>
   snd (snd (snd (last (warnings (add_warning g n l e None))))) = Map.empty \<and>
   graph_attrs (add_warning g n l e c) = graph_attrs g \<and>
   node (add_warning g n l e c) = node g \<and>
   edge (add_warning g n l e c) = edge g \<and>
   has_singleton_terms (add_warning g n l e c) = has_singleton_terms g \<and>
   add_warning g n l e c = g\<lparr>warnings := warnings (add_warning g n l e c)\<rparr>"
  by (simp add: add_warning_def)

section \<open>Dictionaries and networkx operations: lemmas\<close>

lemma dict_in_update: "dict_in (AList.update k v d) k' = (k' = k \<or> dict_in d k')"
  by (simp add: dict_in_def update_conv')

lemma dict_in_keys: "dict_in d k = (k \<in> fst ` set d)"
  by (simp add: dict_in_def map_of_eq_None_iff)

lemma distinct_keys_update: "distinct_keys d \<Longrightarrow> distinct_keys (AList.update k v d)"
  by (simp add: distinct_keys_def distinct_update)

lemma set_update_subset: "set (AList.update k v d) \<subseteq> insert (k, v) (set d)"
  by (induction d) auto

lemma map_entry_same: "map_of d k = Some v \<Longrightarrow> f v = v \<Longrightarrow> AList.map_entry k f d = d"
  by (induction d) (auto split: if_splits)

lemma map_entry_absent: "map_of d k = None \<Longrightarrow> AList.map_entry k f d = d"
  by (induction d) (auto split: if_splits)

lemma distinct_keys_mem: "distinct_keys d \<Longrightarrow> (k, v) \<in> set d \<Longrightarrow> map_of d k = Some v"
  by (simp add: distinct_keys_def)

lemma edge_data_lookup:
  "edge_data g u v k = (case edge_lookup g u v k of None \<Rightarrow> Inl KeyError | Some d \<Rightarrow> Inr d)"
  by (simp add: edge_data_def edge_lookup_def subscript_def split: option.splits)

lemma fresh_key_fresh: "\<not> dict_in kd (fresh_key kd k)"
  by (induction kd k rule: fresh_key.induct) (subst fresh_key.simps, simp)

lemma fresh_key_ge: "k \<le> fresh_key kd k"
  by (induction kd k rule: fresh_key.induct) (subst fresh_key.simps, force)

lemma edge_lookup_adj:
  "edge_lookup g u v k = (case map_of (adj g u) v of None \<Rightarrow> None | Some kd \<Rightarrow> map_of kd k)"
  by (simp add: edge_lookup_def adj_def split: option.splits)

lemma adj_ensure_node: "adj (ensure_node x g) u = adj g u"
  by (simp add: adj_def ensure_node_def update_conv' dict_in_def split: option.splits)

lemma dict_in_ensure_node:
  "dict_in (edge (ensure_node x g)) u = (u = x \<or> dict_in (edge g) u)"
  by (auto simp: ensure_node_def dict_in_update)

lemma ensure_node_in: "map_of (edge (ensure_node v (ensure_node u g))) u \<noteq> None"
  using dict_in_ensure_node [of v "ensure_node u g" u] dict_in_ensure_node [of u g u]
  by (simp add: dict_in_def)

lemma add_edge_alt:
  "fst (add_edge g u v key attr_dict attr) =
     (ensure_node v (ensure_node u g))
       \<lparr>edge := AList.update u
          (AList.update v
             (new_keydict (map_of (adj g u) v) key (effective_attr_dict attr_dict attr))
             (adj g u))
          (edge (ensure_node v (ensure_node u g)))\<rparr>"
proof -
  have a: "(case map_of (edge (ensure_node v (ensure_node u g))) u of None \<Rightarrow> [] | Some a \<Rightarrow> a)
             = adj g u"
    using adj_ensure_node [of v "ensure_node u g" u] adj_ensure_node [of u g u]
    by (simp add: adj_def)
  show ?thesis
    unfolding add_edge_def Let_def a
    by (cases "map_of (adj g u) v"; cases key) (simp_all add: new_keydict_def key_for_def)
qed

lemma adj_edge_update:
  "adj (g\<lparr>edge := AList.update u nb (edge g)\<rparr>) x = (if x = u then nb else adj g x)"
  by (simp add: adj_def update_conv')

lemma adj_add_edge:
  "adj (fst (add_edge g u v key attr_dict attr)) x =
     (if x = u
      then AList.update v
             (new_keydict (map_of (adj g u) v) key (effective_attr_dict attr_dict attr)) (adj g u)
      else adj g x)"
  by (simp add: add_edge_alt adj_edge_update adj_ensure_node)

lemma map_of_new_keydict:
  "map_of (new_keydict old key ad) k =
     (if k = key_for old key
      then Some ((case old of None \<Rightarrow> Map.empty
                  | Some kd \<Rightarrow> (case map_of kd k of None \<Rightarrow> Map.empty | Some d \<Rightarrow> d)) ++ ad)
      else (case old of None \<Rightarrow> None | Some kd \<Rightarrow> map_of kd k))"
  by (cases old) (simp_all add: new_keydict_def update_conv')

lemma add_edge_lookup:
  "edge_lookup (fst (add_edge g u v key attr_dict attr)) u' v' k' =
     (if u' = u \<and> v' = v \<and> k' = key_for (map_of (adj g u) v) key
      then Some ((case edge_lookup g u v k' of None \<Rightarrow> Map.empty | Some d \<Rightarrow> d)
                   ++ effective_attr_dict attr_dict attr)
      else edge_lookup g u' v' k')"
  unfolding edge_lookup_adj adj_add_edge
  by (cases "map_of (adj g u) v")
     (simp_all add: update_conv' map_of_new_keydict)

lemma wf_graph_iff:
  "wf_graph g \<longleftrightarrow>
     distinct_keys (node g) \<and> distinct_keys (edge g) \<and>
     (\<forall>u nbrs. (u, nbrs) \<in> set (edge g) \<longrightarrow>
        distinct_keys nbrs \<and> (\<forall>v kd. (v, kd) \<in> set nbrs \<longrightarrow> distinct_keys kd)) \<and>
     fst ` set (edge g) = fst ` set (node g)"
  by (auto simp: wf_graph_def list_all_iff)

lemma wf_graph_in_edge: "wf_graph g \<Longrightarrow> dict_in (edge g) n = dict_in (node g) n"
  by (simp add: wf_graph_iff dict_in_keys)

lemma wf_graph_adj: "wf_graph g \<Longrightarrow> distinct_keys (adj g u)"
  by (auto simp: wf_graph_iff adj_def distinct_keys_def split: option.splits dest: map_of_SomeD)

lemma wf_graph_keydict:
  "wf_graph g \<Longrightarrow> map_of (adj g u) v = Some kd \<Longrightarrow> distinct_keys kd"
  unfolding wf_graph_iff adj_def
  by (cases "map_of (edge g) u") (auto dest!: map_of_SomeD)

lemma wf_graph_adj_all:
  "wf_graph g \<Longrightarrow> (v, kd) \<in> set (adj g u) \<Longrightarrow> distinct_keys kd"
  unfolding wf_graph_iff adj_def
  by (cases "map_of (edge g) u") (auto dest!: map_of_SomeD)

lemma wf_ensure_node: "wf_graph g \<Longrightarrow> wf_graph (ensure_node x g)"
  unfolding wf_graph_iff ensure_node_def
  using set_update_subset [of x "[]" "edge g"]
  by (auto simp: distinct_keys_update dom_update distinct_keys_def [of "[]"])

lemma ensure_node_present: "dict_in (edge g) x \<Longrightarrow> ensure_node x g = g"
  by (simp add: ensure_node_def)

lemma node_ensure_node:
  "wf_graph g \<Longrightarrow> map_of (node g) n = Some a \<Longrightarrow> map_of (node (ensure_node x g)) n = Some a"
  using wf_graph_in_edge [of g x]
  by (auto simp: ensure_node_def update_conv' dict_in_def)

lemma distinct_new_keydict:
  "(\<And>kd. old = Some kd \<Longrightarrow> distinct_keys kd) \<Longrightarrow> distinct_keys (new_keydict old key ad)"
  by (cases old) (simp_all add: new_keydict_def distinct_keys_update, simp add: distinct_keys_def)

lemma wf_add_edge:
  assumes "wf_graph g"
  shows "wf_graph (fst (add_edge g u v key attr_dict attr))"
proof -
  let ?g2 = "ensure_node v (ensure_node u g)"
  let ?kd = "new_keydict (map_of (adj g u) v) key (effective_attr_dict attr_dict attr)"
  let ?nb = "AList.update v ?kd (adj g u)"
  have wf2: "wf_graph ?g2"
    using assms by (simp add: wf_ensure_node)
  have uin: "u \<in> fst ` set (edge ?g2)"
    by (simp add: dict_in_ensure_node flip: dict_in_keys)
  have dk: "distinct_keys ?kd"
    using assms by (intro distinct_new_keydict) (rule wf_graph_keydict)
  have dn: "distinct_keys ?nb"
    using assms by (simp add: distinct_keys_update wf_graph_adj)
  have inner: "distinct_keys kd'" if "(v', kd') \<in> set ?nb" for v' kd'
    using that set_update_subset [of v ?kd "adj g u"] dk wf_graph_adj_all [OF assms]
    by auto
  have outer: "distinct_keys nbrs \<and> (\<forall>v' kd'. (v', kd') \<in> set nbrs \<longrightarrow> distinct_keys kd')"
    if "(u', nbrs) \<in> set (AList.update u ?nb (edge ?g2))" for u' nbrs
  proof -
    from that set_update_subset [of u ?nb "edge ?g2"]
    consider "nbrs = ?nb" | "(u', nbrs) \<in> set (edge ?g2)" by auto
    then show ?thesis
    proof cases
      case 1
      then show ?thesis using dn inner by blast
    next
      case 2
      then show ?thesis using wf2 unfolding wf_graph_iff by blast
    qed
  qed
  have keys: "fst ` set (AList.update u ?nb (edge ?g2)) = fst ` set (node ?g2)"
    using wf2 uin unfolding wf_graph_iff by (auto simp: dom_update)
  show ?thesis
    unfolding add_edge_alt
    using wf2 outer keys
    by (simp add: wf_graph_iff distinct_keys_update)
qed

lemma node_add_edge:
  "wf_graph g \<Longrightarrow> map_of (node g) n = Some a \<Longrightarrow>
     map_of (node (fst (add_edge g u v key attr_dict attr))) n = Some a"
  by (simp add: add_edge_alt node_ensure_node wf_ensure_node)

lemma dict_in_edge_add_edge:
  "dict_in (edge g) n \<Longrightarrow> dict_in (edge (fst (add_edge g u v key attr_dict attr))) n"
  by (simp add: add_edge_alt dict_in_update dict_in_ensure_node)

lemma other_fields_ensure_node:
  "warnings (ensure_node x g) = warnings g" "graph_attrs (ensure_node x g) = graph_attrs g"
  "has_singleton_terms (ensure_node x g) = has_singleton_terms g"
  by (simp_all add: ensure_node_def)

lemma other_fields_add_edge:
  "warnings (fst (add_edge g u v key attr_dict attr)) = warnings g"
  "graph_attrs (fst (add_edge g u v key attr_dict attr)) = graph_attrs g"
  "has_singleton_terms (fst (add_edge g u v key attr_dict attr)) = has_singleton_terms g"
  by (simp_all add: add_edge_alt other_fields_ensure_node)

lemma snd_add_edge:
  "snd (add_edge g u v key attr_dict attr) = updated_attr_dict attr_dict attr"
  by (simp add: add_edge_def Let_def split: option.splits)

lemma store_node_data_same:
  "map_of (node h) n = Some a \<Longrightarrow> store_node_data h n (Some a) = h"
  by (simp add: store_node_data_def map_entry_same)

lemma store_edge_data_same:
  assumes "edge_lookup h u v k = Some d"
  shows "store_edge_data h u v k (Some d) = h"
proof -
  from assms obtain nbrs kd where
    1: "map_of (edge h) u = Some nbrs" and 2: "map_of nbrs v = Some kd" and 3: "map_of kd k = Some d"
    by (auto simp: edge_lookup_def split: option.splits)
  have "AList.map_entry k (\<lambda>_. d) kd = kd"
    using 3 by (simp add: map_entry_same)
  then have "AList.map_entry v (AList.map_entry k (\<lambda>_. d)) nbrs = nbrs"
    using 2 by (simp add: map_entry_same)
  then have "AList.map_entry u (AList.map_entry v (AList.map_entry k (\<lambda>_. d))) (edge h) = edge h"
    using 1 by (simp add: map_entry_same)
  then show ?thesis
    by (simp add: store_edge_data_def)
qed

lemma add_node_new:
  assumes "wf_graph g" "\<not> dict_in (node g) n"
  shows "add_node g n attr_dict attr =
           Inr (g\<lparr>edge := AList.update n [] (edge g),
                   node := AList.update n (effective_attr_dict attr_dict attr) (node g)\<rparr>,
                updated_attr_dict attr_dict attr)"
  using assms wf_graph_in_edge [of g n] by (simp add: add_node_def)

lemma wf_node_insert:
  assumes "wf_graph g"
  shows "wf_graph (g\<lparr>edge := AList.update n [] (edge g), node := AList.update n a (node g)\<rparr>)"
  using assms set_update_subset [of n "[]" "edge g"]
  unfolding wf_graph_iff
  by (auto simp: distinct_keys_update dom_update distinct_keys_def [of "[]"])

lemma adj_node_insert:
  "\<not> dict_in (edge g) n \<Longrightarrow>
     adj (g\<lparr>edge := AList.update n [] (edge g), node := nd\<rparr>) x = adj g x"
  by (simp add: adj_def update_conv' dict_in_def)

lemma merge_nodes_ok:
  assumes "wf_graph g" "set ns \<subseteq> fst ` set (node h)"
  shows "\<exists>g'. merge_nodes g h (map N ns) = Inr (g', h) \<and> wf_graph g' \<and>
           (\<forall>x. adj g' x = adj g x) \<and>
           (\<forall>x. map_of (node g') x =
              (if dict_in (node g) x \<or> x \<notin> set ns then map_of (node g) x else map_of (node h) x)) \<and>
           warnings g' = warnings g \<and> graph_attrs g' = graph_attrs g \<and>
           has_singleton_terms g' = has_singleton_terms g"
  using assms
proof (induction ns arbitrary: g)
  case Nil
  then show ?case by simp
next
  case (Cons n ns)
  show ?case
  proof (cases "dict_in (node g) n")
    case True
    from Cons.IH [OF Cons.prems(1)] Cons.prems(2)
    obtain g' where g': "merge_nodes g h (map N ns) = Inr (g', h)" "wf_graph g'"
      "\<forall>x. adj g' x = adj g x"
      "\<forall>x. map_of (node g') x =
              (if dict_in (node g) x \<or> x \<notin> set ns then map_of (node g) x else map_of (node h) x)"
      "warnings g' = warnings g" "graph_attrs g' = graph_attrs g"
      "has_singleton_terms g' = has_singleton_terms g"
      by auto
    from g'(4) True have "\<forall>x. map_of (node g') x =
        (if dict_in (node g) x \<or> x \<notin> set (n # ns) then map_of (node g) x else map_of (node h) x)"
      by auto
    with g' True show ?thesis
      by (auto simp: graph_contains_def)
  next
    case False
    from Cons.prems(2) obtain a where a: "map_of (node h) n = Some a"
      by (cases "map_of (node h) n") (auto simp: map_of_eq_None_iff)
    let ?g1 = "g\<lparr>edge := AList.update n [] (edge g), node := AList.update n a (node g)\<rparr>"
    have add: "add_node g n (Some a) Map.empty = Inr (?g1, Some a)"
      using add_node_new [OF Cons.prems(1) False, of "Some a" Map.empty]
      by (simp add: effective_attr_dict_def updated_attr_dict_def)
    have step: "merge_nodes g h (map N (n # ns)) = merge_nodes ?g1 h (map N ns)"
      using False a add by (simp add: graph_contains_def subscript_def store_node_data_same)
    have wf1: "wf_graph ?g1"
      using Cons.prems(1) by (rule wf_node_insert)
    from Cons.IH [OF wf1] Cons.prems(2)
    obtain g' where g': "merge_nodes ?g1 h (map N ns) = Inr (g', h)" "wf_graph g'"
      "\<forall>x. adj g' x = adj ?g1 x"
      "\<forall>x. map_of (node g') x =
              (if dict_in (node ?g1) x \<or> x \<notin> set ns then map_of (node ?g1) x else map_of (node h) x)"
      "warnings g' = warnings ?g1" "graph_attrs g' = graph_attrs ?g1"
      "has_singleton_terms g' = has_singleton_terms ?g1"
      by auto
    have nin: "\<not> dict_in (edge g) n"
      using False Cons.prems(1) by (simp add: wf_graph_in_edge)
    have adj1: "\<forall>x. adj g' x = adj g x"
      using g'(3) adj_node_insert [OF nin] by simp
    have nodes: "\<forall>x. map_of (node g') x =
        (if dict_in (node g) x \<or> x \<notin> set (n # ns) then map_of (node g) x else map_of (node h) x)"
      using g'(4) a False by (auto simp: update_conv' dict_in_def)
    show ?thesis
      using step g'(1,2,5,6,7) adj1 nodes by simp
  qed
qed

lemma add_edge_donor:
  "add_edge g u v key (Some d) Map.empty = (fst (add_edge g u v key (Some d) Map.empty), Some d)"
  using snd_add_edge [of g u v key "Some d" Map.empty]
  by (simp add: updated_attr_dict_def prod_eq_iff)

lemma edge_step_add:
  assumes wf: "wf_graph g"
    and fresh: "edge_lookup g u v (key_for (map_of (adj g u) v) key) = None"
    and key: "if k < 0 then key = Some k else key = None"
  shows "edge_step g (fst (add_edge g u v key (Some d) Map.empty)) u v k d"
proof -
  let ?K = "key_for (map_of (adj g u) v) key"
  let ?g1 = "fst (add_edge g u v key (Some d) Map.empty)"
  have look: "edge_lookup ?g1 u' v' k' =
      (if u' = u \<and> v' = v \<and> k' = ?K then Some d else edge_lookup g u' v' k')" for u' v' k'
    using fresh by (simp add: add_edge_lookup effective_attr_dict_def)
  have K: "if k < 0 then ?K = k else 0 \<le> ?K"
  proof (cases "k < 0")
    case True
    then show ?thesis using key by (simp add: key_for_def)
  next
    case False
    then have "key = None" using key by simp
    moreover have "0 \<le> fresh_key kd (int (length kd))" for kd
      using fresh_key_ge [of "int (length kd)" kd] by linarith
    ultimately show ?thesis using False
      by (simp add: key_for_def split: option.splits)
  qed
  have frame: "\<forall>u' v' k'. edge_lookup ?g1 u' v' k' = edge_lookup g u' v' k' \<or>
          (u' = u \<and> v' = v \<and> edge_lookup g u v k' = None \<and> edge_lookup ?g1 u v k' = Some d \<and>
           (if k < 0 then k' = k else 0 \<le> k'))"
    using look fresh K by auto
  have sat: "if k < 0 then edge_lookup ?g1 u v k \<noteq> None
             else \<exists>gk\<ge>0. edge_lookup ?g1 u v gk = Some d"
    using look [of u v ?K] K by (auto split: if_splits)
  show ?thesis
    unfolding edge_step_def
    using wf frame sat
    by (simp add: wf_add_edge node_add_edge dict_in_edge_add_edge other_fields_add_edge)
qed

lemma edge_step_refl:
  assumes "wf_graph g"
    and "if k < 0 then edge_lookup g u v k \<noteq> None else \<exists>gk\<ge>0. edge_lookup g u v gk = Some d"
  shows "edge_step g g u v k d"
  using assms by (simp add: edge_step_def)

lemma node_add_edge_frame:
  assumes "wf_graph g" and "dict_in (edge g) u"
  shows "map_of (node (fst (add_edge g u v key attr_dict attr))) n =
           (if n = v \<and> \<not> dict_in (node g) v then Some Map.empty else map_of (node g) n)"
proof -
  have "ensure_node u g = g"
    using assms(2) by (rule ensure_node_present)
  then have "node (fst (add_edge g u v key attr_dict attr)) = node (ensure_node v g)"
    by (simp add: add_edge_alt)
  then show ?thesis
    using wf_graph_in_edge [OF assms(1), of v]
    by (simp add: ensure_node_def update_conv')
qed

lemma edge_step_frame_add:
  assumes wf: "wf_graph g"
    and uin: "dict_in (edge g) u"
    and fresh: "edge_lookup g u v (key_for (map_of (adj g u) v) key) = None"
    and key: "if k < 0 then key = Some k else key = None"
    and nodup: "\<And>gk. \<not> k < 0 \<Longrightarrow> 0 \<le> gk \<Longrightarrow> edge_lookup g u v gk \<noteq> Some d"
  shows "edge_step_frame g (fst (add_edge g u v key (Some d) Map.empty)) u v k d"
proof -
  let ?K = "key_for (map_of (adj g u) v) key"
  let ?g1 = "fst (add_edge g u v key (Some d) Map.empty)"
  have look: "\<forall>u' v' k'. edge_lookup ?g1 u' v' k' =
      (if u' = u \<and> v' = v \<and> k' = ?K then Some d else edge_lookup g u' v' k')"
    using fresh by (simp add: add_edge_lookup effective_attr_dict_def)
  have K: "if k < 0 then ?K = k else 0 \<le> ?K \<and> (\<forall>gk\<ge>0. edge_lookup g u v gk \<noteq> Some d)"
  proof (cases "k < 0")
    case True
    then show ?thesis using key by (simp add: key_for_def)
  next
    case False
    then have "key = None" using key by simp
    moreover have "0 \<le> fresh_key kd (int (length kd))" for kd
      using fresh_key_ge [of "int (length kd)" kd] by linarith
    ultimately have "0 \<le> ?K"
      by (simp add: key_for_def split: option.splits)
    with False nodup show ?thesis by simp
  qed
  have nodes: "\<forall>n. map_of (node ?g1) n = map_of (node g) n \<or>
      (n = v \<and> map_of (node g) n = None \<and> map_of (node ?g1) n = Some Map.empty)"
    by (simp add: node_add_edge_frame [OF wf uin] dict_in_def)
  have "\<exists>K. edge_lookup g u v K = None \<and>
            (if k < 0 then K = k
             else 0 \<le> K \<and> (\<forall>gk\<ge>0. edge_lookup g u v gk \<noteq> Some d)) \<and>
            (\<forall>u' v' k'. edge_lookup ?g1 u' v' k' =
                (if u' = u \<and> v' = v \<and> k' = K then Some d else edge_lookup g u' v' k'))"
    using fresh K look by (intro exI [of _ ?K]) simp
  with nodes show ?thesis
    unfolding edge_step_frame_def by blast
qed

lemma edge_step_frame_refl: "edge_step_frame g g u v k d"
  by (simp add: edge_step_frame_def)

lemma merge_edges_step:
  assumes wf: "wf_graph g" and u: "dict_in (edge g) u" and hd: "edge_lookup h u v k = Some d"
  shows "\<exists>g1. merge_edges g h (UVKD u v k d # rest) = merge_edges g1 h rest \<and>
               edge_step g g1 u v k d \<and> edge_step_frame g g1 u v k d"
proof -
  have sub: "subscript (edge g) u = Inr (adj g u)"
    using u by (auto simp: subscript_def adj_def dict_in_def)
  have store: "store_edge_data h u v k (Some d) = h"
    using hd by (rule store_edge_data_same)
  show ?thesis
  proof (cases "k < 0")
    case neg: True
    show ?thesis
    proof (cases "edge_lookup g u v k = None")
      case True
      then have cond: "(case map_of (adj g u) v of None \<Rightarrow> True | Some kd \<Rightarrow> \<not> dict_in kd k)"
        by (simp add: edge_lookup_adj dict_in_def split: option.splits)
      define ga where "ga = fst (add_edge g u v (Some k) (Some d) Map.empty)"
      have ga: "add_edge g u v (Some k) (Some d) Map.empty = (ga, Some d)"
        unfolding ga_def by (rule add_edge_donor)
      have "merge_edges g h (UVKD u v k d # rest) = merge_edges ga h rest"
        using neg cond
        by (simp add: sub store ga)
      moreover have "edge_step g ga u v k d"
          unfolding ga_def
        using wf True neg by (intro edge_step_add) (simp_all add: key_for_def)
      moreover have "edge_step_frame g ga u v k d"
        unfolding ga_def
        using wf u True neg by (intro edge_step_frame_add) (simp_all add: key_for_def)
      ultimately show ?thesis by blast
    next
      case False
      then have cond: "\<not> (case map_of (adj g u) v of None \<Rightarrow> True | Some kd \<Rightarrow> \<not> dict_in kd k)"
        by (simp add: edge_lookup_adj dict_in_def split: option.splits)
      have "merge_edges g h (UVKD u v k d # rest) = merge_edges g h rest"
        using neg cond by (simp add: sub)
      moreover have "edge_step g g u v k d"
        using wf False neg by (intro edge_step_refl) simp_all
      moreover have "edge_step_frame g g u v k d"
        by (rule edge_step_frame_refl)
      ultimately show ?thesis by blast
    qed
  next
    case pos: False
    show ?thesis
    proof (cases "map_of (adj g u) v")
      case None
      define ga where "ga = fst (add_edge g u v None (Some d) Map.empty)"
      have ga: "add_edge g u v None (Some d) Map.empty = (ga, Some d)"
        unfolding ga_def by (rule add_edge_donor)
      have "merge_edges g h (UVKD u v k d # rest) = merge_edges ga h rest"
        using pos None by (simp add: sub store ga)
      moreover have "edge_step g ga u v k d"
          unfolding ga_def
        using wf None pos by (intro edge_step_add) (simp_all add: edge_lookup_adj)
      moreover have "edge_step_frame g ga u v k d"
        unfolding ga_def
        using wf u None pos by (intro edge_step_frame_add) (simp_all add: edge_lookup_adj)
      ultimately show ?thesis by blast
    next
      case (Some kd)
      show ?thesis
      proof (cases "list_ex (\<lambda>(gk, gd). 0 \<le> gk \<and> d = gd) kd")
        case True
        then obtain gk where gk: "(gk, d) \<in> set kd" "0 \<le> gk"
          by (auto simp: list_ex_iff)
        have "distinct_keys kd"
          using wf Some by (rule wf_graph_keydict)
        then have "map_of kd gk = Some d"
          using gk(1) by (rule distinct_keys_mem)
        then have "edge_lookup g u v gk = Some d"
          using Some by (simp add: edge_lookup_adj)
        then have "edge_step g g u v k d"
          using wf pos gk(2) by (intro edge_step_refl) auto
        moreover have "merge_edges g h (UVKD u v k d # rest) = merge_edges g h rest"
          using pos Some True by (simp add: sub)
        moreover have "edge_step_frame g g u v k d"
          by (rule edge_step_frame_refl)
        ultimately show ?thesis by blast
      next
        case False
        define ga where "ga = fst (add_edge g u v None (Some d) Map.empty)"
      have ga: "add_edge g u v None (Some d) Map.empty = (ga, Some d)"
        unfolding ga_def by (rule add_edge_donor)
      have "merge_edges g h (UVKD u v k d # rest) = merge_edges ga h rest"
          using pos Some False by (simp add: sub store ga)
        moreover have fr: "edge_lookup g u v (key_for (Some kd) None) = None"
          using Some fresh_key_fresh [of kd "int (length kd)"]
          by (simp add: edge_lookup_adj key_for_def dict_in_def)
        then have "edge_step g ga u v k d"
          unfolding ga_def
          using wf Some pos by (intro edge_step_add) simp_all
        moreover have "edge_step_frame g ga u v k d"
        proof -
          have nodup: "edge_lookup g u v gk \<noteq> Some d" if "0 \<le> gk" for gk
          proof
            assume "edge_lookup g u v gk = Some d"
            then have "map_of kd gk = Some d"
              using Some by (simp add: edge_lookup_adj)
            then have "(gk, d) \<in> set kd" by (rule map_of_SomeD)
            with that have "list_ex (\<lambda>(gk, gd). 0 \<le> gk \<and> d = gd) kd"
              by (auto simp: list_ex_iff)
            with False show False by simp
          qed
          show ?thesis
            unfolding ga_def
            using wf u fr Some pos nodup by (intro edge_step_frame_add) simp_all
        qed
        ultimately show ?thesis by blast
      qed
    qed
  qed
qed

lemma edge_step_mono:
  "edge_step g g1 u v k d \<Longrightarrow> edge_lookup g u' v' k' = Some a \<Longrightarrow>
     edge_lookup g1 u' v' k' = Some a"
  unfolding edge_step_def by (metis option.distinct(1))

lemma edges_merged_Cons:
  assumes step: "edge_step g g1 u v k d"
    and rest: "edges_merged g1 g' es"
    and hd: "edge_lookup h u v k = Some d"
    and hes: "\<forall>(u', v', k', d') \<in> set es. edge_lookup h u' v' k' = Some d'"
  shows "edges_merged g g' ((u, v, k, d) # es)"
proof -
  have mono1: "edge_lookup g1 x y z = Some a" if "edge_lookup g x y z = Some a" for x y z a
    using step that by (rule edge_step_mono)
  have mono2: "edge_lookup g' x y z = Some a" if "edge_lookup g1 x y z = Some a" for x y z a
    using rest that unfolding edges_merged_def by blast
  have frame: "edge_lookup g1 x y z = edge_lookup g x y z \<or>
      (x = u \<and> y = v \<and> edge_lookup g u v z = None \<and> edge_lookup g1 u v z = Some d \<and>
       (if k < 0 then z = k else 0 \<le> z))" for x y z
    using step unfolding edge_step_def by blast
  have head: "if k < 0
      then edge_lookup g' u v k \<noteq> None \<and>
           (edge_lookup g u v k = None \<longrightarrow> edge_lookup g' u v k = Some d)
      else \<exists>gk\<ge>0. edge_lookup g' u v gk = Some d"
  proof (cases "k < 0")
    case True
    then obtain a where a: "edge_lookup g1 u v k = Some a"
      using step unfolding edge_step_def by auto
    then have 1: "edge_lookup g' u v k = Some a" by (rule mono2)
    have "a = d" if "edge_lookup g u v k = None"
      using frame [of u v k] a that by auto
    then show ?thesis using True 1 by auto
  next
    case False
    then obtain gk where "0 \<le> gk" "edge_lookup g1 u v gk = Some d"
      using step unfolding edge_step_def by auto
    then show ?thesis using False mono2 by auto
  qed
  have tail: "if k' < 0
      then edge_lookup g' u' v' k' \<noteq> None \<and>
           (edge_lookup g u' v' k' = None \<longrightarrow> edge_lookup g' u' v' k' = Some d')
      else \<exists>gk\<ge>0. edge_lookup g' u' v' gk = Some d'"
    if mem: "(u', v', k', d') \<in> set es" for u' v' k' d'
  proof (cases "k' < 0")
    case True
    from rest mem True have r: "edge_lookup g' u' v' k' \<noteq> None"
      "edge_lookup g1 u' v' k' = None \<longrightarrow> edge_lookup g' u' v' k' = Some d'"
      unfolding edges_merged_def by auto
    have "edge_lookup g' u' v' k' = Some d'" if none: "edge_lookup g u' v' k' = None"
    proof (cases "edge_lookup g1 u' v' k' = None")
      case True
      then show ?thesis using r(2) by simp
    next
      case False
      with frame [of u' v' k'] none
      have eq: "u' = u" "v' = v" "edge_lookup g1 u v k' = Some d" "if k < 0 then k' = k else 0 \<le> k'"
        by auto
      from eq(4) \<open>k' < 0\<close> have "k' = k" by (auto split: if_splits)
      with hd hes mem eq(1,2) have "d' = d" by auto
      then show ?thesis using eq mono2 by simp
    qed
    then show ?thesis using True r(1) by simp
  next
    case False
    then show ?thesis using rest mem unfolding edges_merged_def by auto
  qed
  have nodes: "\<forall>n a. map_of (node g) n = Some a \<longrightarrow> map_of (node g') n = Some a"
    using step rest unfolding edge_step_def edges_merged_def by blast
  have ins: "\<forall>n. dict_in (edge g) n \<longrightarrow> dict_in (edge g') n"
    using step rest unfolding edge_step_def edges_merged_def by blast
  have other: "wf_graph g'" "warnings g' = warnings g" "graph_attrs g' = graph_attrs g"
    "has_singleton_terms g' = has_singleton_terms g"
    using step rest unfolding edge_step_def edges_merged_def by simp_all
  have tail': "\<forall>(u', v', k', d') \<in> set es.
      if k' < 0
      then edge_lookup g' u' v' k' \<noteq> None \<and>
           (edge_lookup g u' v' k' = None \<longrightarrow> edge_lookup g' u' v' k' = Some d')
      else \<exists>gk\<ge>0. edge_lookup g' u' v' gk = Some d'"
    using tail by blast
  have mono: "\<forall>u v k a. edge_lookup g u v k = Some a \<longrightarrow> edge_lookup g' u v k = Some a"
    using mono1 mono2 by blast
  show ?thesis
    unfolding edges_merged_def
    using nodes ins other head tail' mono by simp
qed

lemma merge_edges_ok:
  assumes "wf_graph g"
    and "\<forall>(u, v, k, d) \<in> set es. dict_in (edge g) u \<and> edge_lookup h u v k = Some d"
  shows "\<exists>g'. merge_edges g h (map (\<lambda>(u, v, k, d). UVKD u v k d) es) = Inr (g', h) \<and>
               edges_merged g g' es"
  using assms
proof (induction es arbitrary: g)
  case Nil
  then show ?case by (simp add: edges_merged_def)
next
  case (Cons e es)
  obtain u v k d where e: "e = (u, v, k, d)"
    by (cases e) auto
  from Cons.prems e have u: "dict_in (edge g) u" and hd: "edge_lookup h u v k = Some d"
    by auto
  from merge_edges_step [OF Cons.prems(1) u hd]
  obtain g1 where g1: "merge_edges g h (UVKD u v k d # map (\<lambda>(u, v, k, d). UVKD u v k d) es)
        = merge_edges g1 h (map (\<lambda>(u, v, k, d). UVKD u v k d) es)"
    and step: "edge_step g g1 u v k d"
    by blast
  have wf1: "wf_graph g1"
    using step by (simp add: edge_step_def)
  have pre: "\<forall>(u, v, k, d) \<in> set es. dict_in (edge g1) u \<and> edge_lookup h u v k = Some d"
    using Cons.prems(2) step unfolding edge_step_def by auto
  from Cons.IH [OF wf1 pre]
  obtain g' where g': "merge_edges g1 h (map (\<lambda>(u, v, k, d). UVKD u v k d) es) = Inr (g', h)"
    and rest: "edges_merged g1 g' es"
    by blast
  have hes: "\<forall>(u', v', k', d') \<in> set es. edge_lookup h u' v' k' = Some d'"
    using Cons.prems(2) by auto
  have "edges_merged g g' ((u, v, k, d) # es)"
    using step rest hd hes by (rule edges_merged_Cons)
  then show ?case
    using g1 g' e by simp
qed

lemma subdict_matches_Nil: "subdict_matches d [] = True"
  by (simp add: subdict_matches_def)

lemma nodes_iter_all: "nodes_iter h False [] = map N (map fst (node h))"
  by (simp add: nodes_iter_def MultiDiGraph_nodes_iter_def subdict_matches_Nil
      case_prod_unfold)

lemma edges_iter_all:
  "edges_iter h None True True [] =
     map (\<lambda>(u, v, k, d). UVKD u v k d) (MultiDiGraph_edges_iter h None)"
  by (simp add: edges_iter_def subdict_matches_Nil case_prod_unfold)

lemma MultiDiGraph_edges_iter_mem:
  "(u, v, k, d) \<in> set (MultiDiGraph_edges_iter h None) \<longleftrightarrow>
     (\<exists>nbrs kd. (u, nbrs) \<in> set (edge h) \<and> (v, kd) \<in> set nbrs \<and> (k, d) \<in> set kd)"
proof
  assume "(u, v, k, d) \<in> set (MultiDiGraph_edges_iter h None)"
  then show "\<exists>nbrs kd. (u, nbrs) \<in> set (edge h) \<and> (v, kd) \<in> set nbrs \<and> (k, d) \<in> set kd"
    by (auto simp: MultiDiGraph_edges_iter_def nodes_nbrs_def)
next
  assume "\<exists>nbrs kd. (u, nbrs) \<in> set (edge h) \<and> (v, kd) \<in> set nbrs \<and> (k, d) \<in> set kd"
  then obtain nbrs kd where m: "(u, nbrs) \<in> set (edge h)" "(v, kd) \<in> set nbrs" "(k, d) \<in> set kd"
    by blast
  have 1: "(u, v, k, d) \<in> set (map (\<lambda>(key, ddict). (u, v, key, ddict)) kd)"
    using m(3) by (auto simp: image_iff intro!: bexI [of _ "(k, d)"])
  have 2: "(u, v, k, d) \<in> set (concat (map (\<lambda>(nbr, keydict).
               map (\<lambda>(key, ddict). (u, nbr, key, ddict)) keydict) nbrs))"
    unfolding set_concat using m(2) 1
    by (intro UN_I [of "map (\<lambda>(key, ddict). (u, v, key, ddict)) kd"])
       (auto simp: image_iff intro!: bexI [of _ "(v, kd)"])
  show "(u, v, k, d) \<in> set (MultiDiGraph_edges_iter h None)"
    unfolding MultiDiGraph_edges_iter_def nodes_nbrs_def option.case set_concat
    using m(1) 2
    by (intro UN_I [of "concat (map (\<lambda>(nbr, keydict).
               map (\<lambda>(key, ddict). (u, nbr, key, ddict)) keydict) nbrs)"])
       (auto simp: image_iff intro!: bexI [of _ "(u, nbrs)"])
qed
lemma wf_graph_edges_iter:
  assumes "wf_graph h"
  shows "(u, v, k, d) \<in> set (MultiDiGraph_edges_iter h None) \<longleftrightarrow> edge_lookup h u v k = Some d"
proof
  assume "(u, v, k, d) \<in> set (MultiDiGraph_edges_iter h None)"
  then obtain nbrs kd where m: "(u, nbrs) \<in> set (edge h)" "(v, kd) \<in> set nbrs" "(k, d) \<in> set kd"
    by (auto simp: MultiDiGraph_edges_iter_mem)
  from assms m have "distinct_keys (edge h)" "distinct_keys nbrs" "distinct_keys kd"
    unfolding wf_graph_iff by blast+
  with m have "map_of (edge h) u = Some nbrs" "map_of nbrs v = Some kd" "map_of kd k = Some d"
    by (simp_all add: distinct_keys_mem)
  then show "edge_lookup h u v k = Some d"
    by (simp add: edge_lookup_def)
next
  assume "edge_lookup h u v k = Some d"
  then obtain nbrs kd where
    "map_of (edge h) u = Some nbrs" "map_of nbrs v = Some kd" "map_of kd k = Some d"
    by (auto simp: edge_lookup_def split: option.splits)
  then have "(u, nbrs) \<in> set (edge h)" "(v, kd) \<in> set nbrs" "(k, d) \<in> set kd"
    by (auto dest: map_of_SomeD)
  then show "(u, v, k, d) \<in> set (MultiDiGraph_edges_iter h None)"
    by (auto simp: MultiDiGraph_edges_iter_mem)
qed

lemma edge_lookup_source: "edge_lookup h u v k = Some d \<Longrightarrow> dict_in (edge h) u"
  by (auto simp: edge_lookup_def dict_in_def split: option.splits)

lemma left_full_merge_ok:
  assumes wfg: "wf_graph g" and wfh: "wf_graph h"
  shows "\<exists>g'. left_full_merge g h = Inr (g', h) \<and> merged g h g'"
proof -
  let ?ns = "map fst (node h)"
  let ?es = "MultiDiGraph_edges_iter h None"
  from merge_nodes_ok [OF wfg, of ?ns h]
  obtain g1 where g1: "merge_nodes g h (map N ?ns) = Inr (g1, h)" "wf_graph g1"
    and adj1: "\<forall>x. adj g1 x = adj g x"
    and node1: "\<forall>x. map_of (node g1) x =
        (if dict_in (node g) x \<or> x \<notin> set ?ns then map_of (node g) x else map_of (node h) x)"
    and other1: "warnings g1 = warnings g" "graph_attrs g1 = graph_attrs g"
      "has_singleton_terms g1 = has_singleton_terms g"
    by auto
  have look1: "edge_lookup g1 u v k = edge_lookup g u v k" for u v k
    using adj1 by (simp add: edge_lookup_adj)
  have node1': "map_of (node g1) x =
        (if dict_in (node g) x \<or> \<not> dict_in (node h) x then map_of (node g) x
         else map_of (node h) x)" for x
    using node1 by (simp add: dict_in_keys)
  have in1: "dict_in (node g1) n" if "dict_in (node g) n \<or> dict_in (node h) n" for n
    using that node1' [of n] by (auto simp: dict_in_def)
  have pre: "\<forall>(u, v, k, d) \<in> set ?es. dict_in (edge g1) u \<and> edge_lookup h u v k = Some d"
  proof -
    have "dict_in (edge g1) u \<and> edge_lookup h u v k = Some d" if "(u, v, k, d) \<in> set ?es" for u v k d
    proof -
      from that wfh have l: "edge_lookup h u v k = Some d"
        by (simp add: wf_graph_edges_iter)
      then have "dict_in (node h) u"
        using wfh edge_lookup_source [of h u v k d] by (simp add: wf_graph_in_edge)
      then have "dict_in (edge g1) u"
        using in1 g1(2) by (simp add: wf_graph_in_edge)
      with l show ?thesis by simp
    qed
    then show ?thesis by blast
  qed
  from merge_edges_ok [OF g1(2) pre]
  obtain g' where g': "merge_edges g1 h (map (\<lambda>(u, v, k, d). UVKD u v k d) ?es) = Inr (g', h)"
    and em: "edges_merged g1 g' ?es"
    by blast
  have g1n: "merge_nodes g h (nodes_iter h False []) = Inr (g1, h)"
    using g1(1) by (simp only: nodes_iter_all)
  have run: "left_full_merge g h = Inr (g', h)"
    by (simp add: left_full_merge_def g1n edges_iter_all g')
  have wf': "wf_graph g'"
    using em by (simp add: edges_merged_def)
  have keep: "map_of (node g1) n = Some a \<Longrightarrow> map_of (node g') n = Some a" for n a
    using em unfolding edges_merged_def by blast
  have nodes_g: "map_of (node g') n = Some a" if "map_of (node g) n = Some a" for n a
  proof -
    from that have "dict_in (node g) n" by (simp add: dict_in_def)
    with node1' [of n] that have "map_of (node g1) n = Some a" by simp
    then show ?thesis by (rule keep)
  qed
  have nodes_h: "map_of (node g') n = Some a"
    if "\<not> dict_in (node g) n \<and> map_of (node h) n = Some a" for n a
  proof -
    from that have "dict_in (node h) n" by (simp add: dict_in_def)
    with node1' [of n] that have "map_of (node g1) n = Some a" by simp
    then show ?thesis by (rule keep)
  qed
  have ins: "dict_in (edge g') n" if "dict_in (node g) n \<or> dict_in (node h) n" for n
  proof -
    from that have "dict_in (edge g1) n"
      using in1 g1(2) by (simp add: wf_graph_in_edge)
    then show ?thesis using em unfolding edges_merged_def by blast
  qed
  have mono: "edge_lookup g' u v k = Some a" if "edge_lookup g u v k = Some a" for u v k a
    using that em look1 unfolding edges_merged_def by simp
  have sat: "if k < 0
           then edge_lookup g' u v k \<noteq> None \<and>
                (edge_lookup g u v k = None \<longrightarrow> edge_lookup g' u v k = Some d)
           else \<exists>gk\<ge>0. edge_lookup g' u v gk = Some d"
    if "edge_lookup h u v k = Some d" for u v k d
  proof -
    from that wfh have "(u, v, k, d) \<in> set ?es"
      by (simp add: wf_graph_edges_iter)
    with em show ?thesis
      unfolding edges_merged_def look1 by fast
  qed
  have other: "warnings g' = warnings g" "graph_attrs g' = graph_attrs g"
    "has_singleton_terms g' = has_singleton_terms g"
    using em other1 by (simp_all add: edges_merged_def)
  have "merged g h g'"
    unfolding merged_def
    using wf' nodes_g nodes_h ins mono sat other by blast
  with run show ?thesis by blast
qed

lemma subscript_map_of: "subscript d k = Inr v \<longleftrightarrow> map_of d k = Some v"
  by (simp add: subscript_def split: option.splits)

lemma edge_data_Inr: "edge_data g u v k = Inr d \<longleftrightarrow> edge_lookup g u v k = Some d"
  by (simp add: edge_data_lookup split: option.splits)

lemma edge_data_Inl: "edge_data g u v k = Inl KeyError \<longleftrightarrow> edge_lookup g u v k = None"
  by (simp add: edge_data_lookup split: option.splits)

lemma merge_nodes_noop:
  "\<forall>n \<in> set ns. dict_in (node g) n \<Longrightarrow> merge_nodes g h (map N ns) = Inr (g, h)"
  by (induction ns) (simp_all add: graph_contains_def)

lemma merge_edges_noop:
  assumes "\<forall>(u, v, k, d) \<in> set es. dict_in (edge g) u \<and>
             (if k < 0 then edge_lookup g u v k \<noteq> None
              else \<exists>gk\<ge>0. edge_lookup g u v gk = Some d)"
  shows "merge_edges g h (map (\<lambda>(u, v, k, d). UVKD u v k d) es) = Inr (g, h)"
  using assms
proof (induction es)
  case Nil
  then show ?case by simp
next
  case (Cons e es)
  obtain u v k d where e: "e = (u, v, k, d)"
    by (cases e) auto
  from Cons.prems e have u: "dict_in (edge g) u"
    and sat: "if k < 0 then edge_lookup g u v k \<noteq> None
              else \<exists>gk\<ge>0. edge_lookup g u v gk = Some d"
    by auto
  have sub: "subscript (edge g) u = Inr (adj g u)"
    using u by (auto simp: subscript_def adj_def dict_in_def)
  have step: "merge_edges g h (UVKD u v k d # rest) = merge_edges g h rest" for rest
  proof (cases "k < 0")
    case True
    with sat have "\<not> (case map_of (adj g u) v of None \<Rightarrow> True | Some kd \<Rightarrow> \<not> dict_in kd k)"
      by (simp add: edge_lookup_adj dict_in_def split: option.splits)
    with True show ?thesis by (simp add: sub)
  next
    case False
    with sat obtain gk where gk: "0 \<le> gk" "edge_lookup g u v gk = Some d"
      by auto
    then obtain kd where kd: "map_of (adj g u) v = Some kd" "map_of kd gk = Some d"
      by (auto simp: edge_lookup_adj split: option.splits)
    from kd(2) have "(gk, d) \<in> set kd"
      by (rule map_of_SomeD)
    with gk(1) have "list_ex (\<lambda>(gk, gd). 0 \<le> gk \<and> d = gd) kd"
      by (auto simp: list_ex_iff)
    with False kd(1) show ?thesis by (simp add: sub)
  qed
  have "merge_edges g h (map (\<lambda>(u, v, k, d). UVKD u v k d) (e # es)) =
          merge_edges g h (UVKD u v k d # map (\<lambda>(u, v, k, d). UVKD u v k d) es)"
    by (simp add: e del: merge_edges.simps)
  also have "\<dots> = merge_edges g h (map (\<lambda>(u, v, k, d). UVKD u v k d) es)"
    by (rule step)
  also have "\<dots> = Inr (g, h)"
    using Cons by simp
  finally show ?case .
qed

lemma merged_node_receiver:
  "merged g h g' \<Longrightarrow> map_of (node g) n = Some a \<Longrightarrow> map_of (node g') n = Some a"
  unfolding merged_def by blast

lemma merged_node_donor:
  "merged g h g' \<Longrightarrow> \<not> dict_in (node g) n \<Longrightarrow> map_of (node h) n = Some a \<Longrightarrow>
     map_of (node g') n = Some a"
  unfolding merged_def by blast

lemma merged_contains:
  assumes "merged g h g'" and "dict_in (node h) n"
  shows "dict_in (node g') n"
proof (cases "dict_in (node g) n")
  case True
  then obtain a where "map_of (node g) n = Some a"
    by (auto simp: dict_in_def)
  with assms(1) have "map_of (node g') n = Some a"
    by (rule merged_node_receiver)
  then show ?thesis by (simp add: dict_in_def)
next
  case False
  from assms(2) obtain a where "map_of (node h) n = Some a"
    by (auto simp: dict_in_def)
  with assms(1) False have "map_of (node g') n = Some a"
    by (rule merged_node_donor)
  then show ?thesis by (simp add: dict_in_def)
qed

subsection \<open>What the merge may add\<close>

text \<open>Every step of the edge loop adds at most one entry, so the receiver after the merge
  holds only its own nodes and edges and those accounted for by the donor.\<close>

lemma edge_step_frame_mono:
  assumes "edge_step_frame g g1 u v k d" and "edge_lookup g x y z = Some a"
  shows "edge_lookup g1 x y z = Some a"
proof -
  from assms(1) consider
    (same) "\<forall>u' v' k'. edge_lookup g1 u' v' k' = edge_lookup g u' v' k'"
  | (new) K where "edge_lookup g u v K = None"
      "\<forall>u' v' k'. edge_lookup g1 u' v' k' =
          (if u' = u \<and> v' = v \<and> k' = K then Some d else edge_lookup g u' v' k')"
    unfolding edge_step_frame_def by blast
  then show ?thesis
  proof cases
    case same
    then show ?thesis using assms(2) by simp
  next
    case new
    then show ?thesis using assms(2) by auto
  qed
qed

lemma edges_frame_Cons:
  assumes stepf: "edge_step_frame g g1 u v k d"
    and rest: "edges_frame g1 g' es"
  shows "edges_frame g g' ((u, v, k, d) # es)"
proof -
  have restN: "map_of (node g') n = map_of (node g1) n \<or>
      (map_of (node g1) n = None \<and> map_of (node g') n = Some Map.empty \<and>
       (\<exists>u k d. (u, n, k, d) \<in> set es))" for n
    using rest unfolding edges_frame_def by blast
  have restE: "edge_lookup g1 x y z = Some a \<or>
      (edge_lookup g1 x y z = None \<and>
       (\<exists>k. (x, y, k, a) \<in> set es \<and> (if k < 0 then z = k else 0 \<le> z)))"
    if "edge_lookup g' x y z = Some a" for x y z a
    using rest that unfolding edges_frame_def by blast
  have restD: "edge_lookup g1 x y k1 = Some a \<and> edge_lookup g1 x y k2 = Some a"
    if "0 \<le> k1" "0 \<le> k2" "k1 \<noteq> k2" "edge_lookup g' x y k1 = Some a"
      "edge_lookup g' x y k2 = Some a" for x y k1 k2 a
    using rest that unfolding edges_frame_def by blast
  have stepN: "map_of (node g1) n = map_of (node g) n \<or>
      (n = v \<and> map_of (node g) n = None \<and> map_of (node g1) n = Some Map.empty)" for n
    using stepf unfolding edge_step_frame_def by blast
  from stepf consider
    (same) "\<forall>u' v' k'. edge_lookup g1 u' v' k' = edge_lookup g u' v' k'"
  | (new) K where "edge_lookup g u v K = None"
      "if k < 0 then K = k else 0 \<le> K \<and> (\<forall>gk\<ge>0. edge_lookup g u v gk \<noteq> Some d)"
      "\<forall>u' v' k'. edge_lookup g1 u' v' k' =
          (if u' = u \<and> v' = v \<and> k' = K then Some d else edge_lookup g u' v' k')"
    unfolding edge_step_frame_def by blast
  note stepE = this
  have N: "\<forall>n. map_of (node g') n = map_of (node g) n \<or>
      (map_of (node g) n = None \<and> map_of (node g') n = Some Map.empty \<and>
       (\<exists>u' k' d'. (u', n, k', d') \<in> set ((u, v, k, d) # es)))"
  proof
    fix n
    show "map_of (node g') n = map_of (node g) n \<or>
      (map_of (node g) n = None \<and> map_of (node g') n = Some Map.empty \<and>
       (\<exists>u' k' d'. (u', n, k', d') \<in> set ((u, v, k, d) # es)))"
    proof (cases "map_of (node g1) n = map_of (node g) n")
      case True
      from restN [of n] show ?thesis
      proof
        assume "map_of (node g') n = map_of (node g1) n"
        with True show ?thesis by simp
      next
        assume r: "map_of (node g1) n = None \<and> map_of (node g') n = Some Map.empty \<and>
          (\<exists>u k d. (u, n, k, d) \<in> set es)"
        then obtain u' k' d' where "(u', n, k', d') \<in> set es" by blast
        then have "(u', n, k', d') \<in> set ((u, v, k, d) # es)" by simp
        then have "\<exists>u' k' d'. (u', n, k', d') \<in> set ((u, v, k, d) # es)" by blast
        with r True show ?thesis by simp
      qed
    next
      case False
      with stepN [of n] have s: "n = v" "map_of (node g) n = None"
        "map_of (node g1) n = Some Map.empty"
        by auto
      from restN [of n] s(3) have "map_of (node g') n = Some Map.empty"
        by auto
      moreover have "(u, n, k, d) \<in> set ((u, v, k, d) # es)"
        using s(1) by simp
      then have "\<exists>u' k' d'. (u', n, k', d') \<in> set ((u, v, k, d) # es)" by blast
      ultimately show ?thesis using s(2) by simp
    qed
  qed
  have E: "edge_lookup g x y z = Some a \<or>
      (edge_lookup g x y z = None \<and>
       (\<exists>k'. (x, y, k', a) \<in> set ((u, v, k, d) # es) \<and> (if k' < 0 then z = k' else 0 \<le> z)))"
    if l: "edge_lookup g' x y z = Some a" for x y z a
  proof -
    from restE [OF l] show ?thesis
    proof
      assume g1: "edge_lookup g1 x y z = Some a"
      show ?thesis
      proof (cases rule: stepE)
        case same
        then show ?thesis using g1 by simp
      next
        case (new K)
        show ?thesis
        proof (cases "x = u \<and> y = v \<and> z = K")
          case True
          with new(3) g1 have "a = d" by simp
          with True have m: "(x, y, k, a) \<in> set ((u, v, k, d) # es)" by simp
          have c: "if k < 0 then z = k else 0 \<le> z"
            using new(2) True by (simp split: if_splits)
          have n: "edge_lookup g x y z = None"
            using True new(1) by simp
          from m c have "\<exists>k'. (x, y, k', a) \<in> set ((u, v, k, d) # es) \<and>
              (if k' < 0 then z = k' else 0 \<le> z)"
            by (rule_tac x = k in exI) simp
          with n show ?thesis by simp
        next
          case False
          with new(3) g1 have "edge_lookup g x y z = Some a" by auto
          then show ?thesis by simp
        qed
      qed
    next
      assume r: "edge_lookup g1 x y z = None \<and>
        (\<exists>k. (x, y, k, a) \<in> set es \<and> (if k < 0 then z = k else 0 \<le> z))"
      have "edge_lookup g x y z = None"
      proof (cases "edge_lookup g x y z")
        case None
        then show ?thesis .
      next
        case (Some b)
        with stepf have "edge_lookup g1 x y z = Some b"
          by (rule edge_step_frame_mono)
        with r show ?thesis by simp
      qed
      moreover from r obtain k0 where "(x, y, k0, a) \<in> set es"
        "if k0 < 0 then z = k0 else 0 \<le> z"
        by blast
      then have "\<exists>k'. (x, y, k', a) \<in> set ((u, v, k, d) # es) \<and>
          (if k' < 0 then z = k' else 0 \<le> z)"
        by (rule_tac x = k0 in exI) simp
      ultimately show ?thesis by simp
    qed
  qed
  have D: "edge_lookup g x y k1 = Some a \<and> edge_lookup g x y k2 = Some a"
    if p: "0 \<le> k1" "0 \<le> k2" "k1 \<noteq> k2" "edge_lookup g' x y k1 = Some a"
      "edge_lookup g' x y k2 = Some a" for x y k1 k2 a
  proof -
    from restD [OF p] have g1: "edge_lookup g1 x y k1 = Some a" "edge_lookup g1 x y k2 = Some a"
      by simp_all
    show ?thesis
    proof (cases rule: stepE)
      case same
      then show ?thesis using g1 by simp
    next
      case (new K)
      have no: "\<not> (x = u \<and> y = v \<and> (K = k1 \<or> K = k2))"
      proof
        assume at: "x = u \<and> y = v \<and> (K = k1 \<or> K = k2)"
        then have "0 \<le> K" using p(1,2) by auto
        with new(2) have pos: "\<not> k < 0" and nd: "\<forall>gk\<ge>0. edge_lookup g u v gk \<noteq> Some d"
          by (auto split: if_splits)
        from at consider "K = k1" | "K = k2" by blast
        then show False
        proof cases
          case 1
          with at new(3) g1(1) have "a = d" by simp
          moreover from 1 at p(3) new(3) g1(2) have "edge_lookup g u v k2 = Some a" by auto
          ultimately show False using nd p(2) by blast
        next
          case 2
          with at new(3) g1(2) have "a = d" by simp
          moreover from 2 at p(3) new(3) g1(1) have "edge_lookup g u v k1 = Some a" by auto
          ultimately show False using nd p(1) by blast
        qed
      qed
      with new(3) g1 show ?thesis by auto
    qed
  qed
  have E': "\<forall>x y z a. edge_lookup g' x y z = Some a \<longrightarrow>
      edge_lookup g x y z = Some a \<or>
      (edge_lookup g x y z = None \<and>
       (\<exists>k'. (x, y, k', a) \<in> set ((u, v, k, d) # es) \<and> (if k' < 0 then z = k' else 0 \<le> z)))"
    by (intro allI impI) (rule E)
  have D': "\<forall>x y k1 k2 a. 0 \<le> k1 \<and> 0 \<le> k2 \<and> k1 \<noteq> k2 \<and>
      edge_lookup g' x y k1 = Some a \<and> edge_lookup g' x y k2 = Some a \<longrightarrow>
      edge_lookup g x y k1 = Some a \<and> edge_lookup g x y k2 = Some a"
  proof (intro allI impI)
    fix x y k1 k2 a
    assume "0 \<le> k1 \<and> 0 \<le> k2 \<and> k1 \<noteq> k2 \<and>
      edge_lookup g' x y k1 = Some a \<and> edge_lookup g' x y k2 = Some a"
    then have "0 \<le> k1" "0 \<le> k2" "k1 \<noteq> k2" "edge_lookup g' x y k1 = Some a"
      "edge_lookup g' x y k2 = Some a"
      by simp_all
    then show "edge_lookup g x y k1 = Some a \<and> edge_lookup g x y k2 = Some a"
      by (rule D)
  qed
  show ?thesis
    unfolding edges_frame_def
    by (intro conjI) (rule N, rule E', rule D')
qed


lemma merge_edges_frame:
  assumes "wf_graph g"
    and "\<forall>(u, v, k, d) \<in> set es. dict_in (edge g) u \<and> edge_lookup h u v k = Some d"
    and "merge_edges g h (map (\<lambda>(u, v, k, d). UVKD u v k d) es) = Inr (g', h')"
  shows "edges_frame g g' es"
  using assms
proof (induction es arbitrary: g)
  case Nil
  then show ?case by (simp add: edges_frame_def)
next
  case (Cons e es)
  obtain u v k d where e: "e = (u, v, k, d)"
    by (cases e) auto
  from Cons.prems e have u: "dict_in (edge g) u" and hd: "edge_lookup h u v k = Some d"
    by auto
  from merge_edges_step [OF Cons.prems(1) u hd]
  obtain g1 where g1: "merge_edges g h (UVKD u v k d # map (\<lambda>(u, v, k, d). UVKD u v k d) es)
        = merge_edges g1 h (map (\<lambda>(u, v, k, d). UVKD u v k d) es)"
    and step: "edge_step g g1 u v k d" and stepf: "edge_step_frame g g1 u v k d"
    by blast
  have wf1: "wf_graph g1"
    using step by (simp add: edge_step_def)
  have pre: "\<forall>(u, v, k, d) \<in> set es. dict_in (edge g1) u \<and> edge_lookup h u v k = Some d"
    using Cons.prems(2) step unfolding edge_step_def by auto
  have "merge_edges g h (map (\<lambda>(u, v, k, d). UVKD u v k d) (e # es)) =
          merge_edges g h (UVKD u v k d # map (\<lambda>(u, v, k, d). UVKD u v k d) es)"
    by (simp add: e del: merge_edges.simps)
  with Cons.prems(3) g1
  have "merge_edges g1 h (map (\<lambda>(u, v, k, d). UVKD u v k d) es) = Inr (g', h')"
    by simp
  with wf1 pre have "edges_frame g1 g' es"
    by (rule Cons.IH)
  with stepf have "edges_frame g g' ((u, v, k, d) # es)"
    by (rule edges_frame_Cons)
  then show ?case by (simp add: e)
qed

lemma left_full_merge_frame:
  assumes wfg: "wf_graph g" and wfh: "wf_graph h"
    and run: "left_full_merge g h = Inr (g', h')"
  shows "merge_frame g h g'"
proof -
  let ?ns = "map fst (node h)"
  let ?es = "MultiDiGraph_edges_iter h None"
  from merge_nodes_ok [OF wfg, of ?ns h]
  obtain g1 where g1: "merge_nodes g h (map N ?ns) = Inr (g1, h)" "wf_graph g1"
    and adj1: "\<forall>x. adj g1 x = adj g x"
    and node1: "\<forall>x. map_of (node g1) x =
        (if dict_in (node g) x \<or> x \<notin> set ?ns then map_of (node g) x else map_of (node h) x)"
    by auto
  have look1: "edge_lookup g1 u v k = edge_lookup g u v k" for u v k
    using adj1 by (simp add: edge_lookup_adj)
  have node1': "map_of (node g1) x =
        (if dict_in (node g) x \<or> \<not> dict_in (node h) x then map_of (node g) x
         else map_of (node h) x)" for x
    using node1 by (simp add: dict_in_keys)
  have in1: "dict_in (node g1) n" if "dict_in (node h) n" for n
    using that node1' [of n] by (auto simp: dict_in_def)
  have pre: "\<forall>(u, v, k, d) \<in> set ?es. dict_in (edge g1) u \<and> edge_lookup h u v k = Some d"
  proof -
    have "dict_in (edge g1) u \<and> edge_lookup h u v k = Some d" if "(u, v, k, d) \<in> set ?es" for u v k d
    proof -
      from that wfh have l: "edge_lookup h u v k = Some d"
        by (simp add: wf_graph_edges_iter)
      then have "dict_in (node h) u"
        using wfh edge_lookup_source [of h u v k d] by (simp add: wf_graph_in_edge)
      then have "dict_in (edge g1) u"
        using in1 g1(2) by (simp add: wf_graph_in_edge)
      with l show ?thesis by simp
    qed
    then show ?thesis by blast
  qed
  have g1n: "merge_nodes g h (nodes_iter h False []) = Inr (g1, h)"
    using g1(1) by (simp only: nodes_iter_all)
  from run have "merge_edges g1 h (map (\<lambda>(u, v, k, d). UVKD u v k d) ?es) = Inr (g', h')"
    by (simp add: left_full_merge_def g1n edges_iter_all)
  with g1(2) pre have ef: "edges_frame g1 g' ?es"
    by (rule merge_edges_frame)
  have mem: "(u, v, k, d) \<in> set ?es \<longleftrightarrow> edge_lookup h u v k = Some d" for u v k d
    using wfh by (rule wf_graph_edges_iter)
  have N: "\<forall>n a. map_of (node g') n = Some a \<longrightarrow>
           map_of (node g) n = Some a \<or>
           (\<not> dict_in (node g) n \<and> map_of (node h) n = Some a) \<or>
           (\<not> dict_in (node g) n \<and> \<not> dict_in (node h) n \<and> a = Map.empty \<and>
            (\<exists>u k d. edge_lookup h u n k = Some d))"
  proof (intro allI impI)
    fix n a assume a: "map_of (node g') n = Some a"
    from ef have "map_of (node g') n = map_of (node g1) n \<or>
        (map_of (node g1) n = None \<and> map_of (node g') n = Some Map.empty \<and>
         (\<exists>u k d. (u, n, k, d) \<in> set ?es))"
      unfolding edges_frame_def by blast
    then show "map_of (node g) n = Some a \<or>
           (\<not> dict_in (node g) n \<and> map_of (node h) n = Some a) \<or>
           (\<not> dict_in (node g) n \<and> \<not> dict_in (node h) n \<and> a = Map.empty \<and>
            (\<exists>u k d. edge_lookup h u n k = Some d))"
    proof
      assume "map_of (node g') n = map_of (node g1) n"
      with a have "map_of (node g1) n = Some a" by simp
      with node1' [of n] show ?thesis
        by (auto split: if_splits)
    next
      assume r: "map_of (node g1) n = None \<and> map_of (node g') n = Some Map.empty \<and>
         (\<exists>u k d. (u, n, k, d) \<in> set ?es)"
      then have "\<not> dict_in (node g1) n" by (simp add: dict_in_def)
      with node1' [of n] have no: "\<not> dict_in (node g) n" "\<not> dict_in (node h) n"
        by (auto simp: dict_in_def split: if_splits)
      from r a have e: "a = Map.empty" by simp
      from r obtain u k d where "(u, n, k, d) \<in> set ?es" by blast
      then have "edge_lookup h u n k = Some d" by (simp add: mem)
      then have "\<exists>u k d. edge_lookup h u n k = Some d" by blast
      with no e show ?thesis by simp
    qed
  qed
  have E: "\<forall>u v k' a. edge_lookup g' u v k' = Some a \<longrightarrow>
           edge_lookup g u v k' = Some a \<or>
           (edge_lookup g u v k' = None \<and>
            (\<exists>k. edge_lookup h u v k = Some a \<and> (if k < 0 then k' = k else 0 \<le> k')))"
    using ef unfolding edges_frame_def look1 mem by blast
  have D: "\<forall>u v k1 k2 a. 0 \<le> k1 \<and> 0 \<le> k2 \<and> k1 \<noteq> k2 \<and>
           edge_lookup g' u v k1 = Some a \<and> edge_lookup g' u v k2 = Some a \<longrightarrow>
           edge_lookup g u v k1 = Some a \<and> edge_lookup g u v k2 = Some a"
    using ef unfolding edges_frame_def look1 by blast
  show ?thesis
    unfolding merge_frame_def
    by (intro conjI) (rule N, rule E, rule D)
qed

section \<open>Counting and idempotent insertion: lemmas\<close>

lemma length_filter_concat_map:
  "length (filter Q (concat (map f xs))) = sum_list (map (\<lambda>x. length (filter Q (f x))) xs)"
  by (induction xs) auto

lemma sum_list_keyed:
  assumes "distinct_keys al"
    and "\<And>k' v. (k', v) \<in> set al \<Longrightarrow> k' \<noteq> k \<Longrightarrow> c (k', v) = (0::nat)"
  shows "sum_list (map c al) = (case map_of al k of None \<Rightarrow> 0 | Some v \<Rightarrow> c (k, v))"
  using assms
proof (induction al)
  case Nil
  then show ?case by simp
next
  case (Cons p al)
  obtain k' v where p: "p = (k', v)" by (cases p)
  have d: "distinct_keys al" and notin: "k' \<notin> fst ` set al"
    using Cons.prems(1) by (auto simp: distinct_keys_def p)
  have IH: "sum_list (map c al) = (case map_of al k of None \<Rightarrow> 0 | Some v \<Rightarrow> c (k, v))"
    using Cons.IH [OF d] Cons.prems(2) by simp
  show ?case
  proof (cases "k' = k")
    case True
    then have "map_of al k = None"
      using notin by (simp add: map_of_eq_None_iff)
    then show ?thesis using True IH by (simp add: p)
  next
    case False
    then have "c (k', v) = 0"
      using Cons.prems(2) [of k' v] by (simp add: p)
    then show ?thesis using False IH by (simp add: p)
  qed
qed

lemma edges_iter_keys_all:
  "edges_iter g None False True [] =
     map (\<lambda>(u, v, k, d). UVK u v k) (MultiDiGraph_edges_iter g None)"
  by (simp add: edges_iter_def subdict_matches_Nil case_prod_unfold)

lemma count_key:
  "distinct_keys kd \<Longrightarrow>
     length (filter (\<lambda>p. fst p = k) kd) = (case map_of kd k of None \<Rightarrow> 0 | Some d \<Rightarrow> 1)"
proof (induction kd)
  case Nil
  then show ?case by simp
next
  case (Cons p kd)
  then have d: "distinct_keys kd" and notin: "fst p \<notin> fst ` set kd"
    by (auto simp: distinct_keys_def)
  show ?case
  proof (cases "fst p = k")
    case True
    then have "map_of kd k = None"
      using notin by (simp add: map_of_eq_None_iff)
    then show ?thesis using True Cons.IH [OF d] by (cases p) simp
  next
    case False
    then show ?thesis using Cons.IH [OF d] by (cases p) auto
  qed
qed

lemma edge_count_lookup:
  fixes g :: "'n BELGraph"
  assumes "wf_graph g"
  shows "edge_count g u v k = (case edge_lookup g u v k of None \<Rightarrow> 0 | Some d \<Rightarrow> 1)"
proof -
  let ?c2 = "\<lambda>n p. length (filter (\<lambda>q. n = u \<and> fst p = v \<and> fst q = k) (snd p))"
  let ?c1 = "\<lambda>p. sum_list (map (?c2 (fst p)) (snd p))"
  have count: "edge_count g u v k = sum_list (map ?c1 (edge g))"
    unfolding edge_count_def edges_iter_keys_all MultiDiGraph_edges_iter_def nodes_nbrs_def
    by (simp add: filter_map o_def case_prod_unfold length_filter_concat_map)
  have l3: "?c2 u (v, kd) = (case map_of kd k of None \<Rightarrow> 0 | Some d \<Rightarrow> 1)"
    if "distinct_keys kd" for kd :: keydict
    using count_key [OF that, of k] by simp
  have l2: "sum_list (map (?c2 u) nbrs) =
      (case map_of nbrs v of None \<Rightarrow> 0 | Some kd \<Rightarrow> (case map_of kd k of None \<Rightarrow> 0 | Some d \<Rightarrow> 1))"
    if d: "distinct_keys nbrs" and all: "\<And>v' kd. (v', kd) \<in> set nbrs \<Longrightarrow> distinct_keys kd"
    for nbrs :: "'n adjdict"
  proof -
    have "sum_list (map (?c2 u) nbrs) = (case map_of nbrs v of None \<Rightarrow> 0 | Some kd \<Rightarrow> ?c2 u (v, kd))"
      by (rule sum_list_keyed [OF d]) simp
    also have "\<dots> = (case map_of nbrs v of None \<Rightarrow> 0
        | Some kd \<Rightarrow> (case map_of kd k of None \<Rightarrow> 0 | Some d \<Rightarrow> 1))"
    proof (cases "map_of nbrs v")
      case None
      then show ?thesis by simp
    next
      case (Some kd)
      then have "(v, kd) \<in> set nbrs" by (rule map_of_SomeD)
      then have "distinct_keys kd" by (rule all)
      then show ?thesis using Some l3 by simp
    qed
    finally show ?thesis .
  qed
  have wf: "distinct_keys (edge g)"
    "\<And>u' nbrs. (u', nbrs) \<in> set (edge g) \<Longrightarrow> distinct_keys nbrs"
    "\<And>u' nbrs v' kd. (u', nbrs) \<in> set (edge g) \<Longrightarrow> (v', kd) \<in> set nbrs \<Longrightarrow> distinct_keys kd"
    using assms unfolding wf_graph_iff by blast+
  have "sum_list (map ?c1 (edge g)) = (case map_of (edge g) u of None \<Rightarrow> 0 | Some nbrs \<Rightarrow> ?c1 (u, nbrs))"
    by (rule sum_list_keyed [OF wf(1)]) simp
  also have "\<dots> = (case edge_lookup g u v k of None \<Rightarrow> 0 | Some d \<Rightarrow> 1)"
  proof (cases "map_of (edge g) u")
    case None
    then show ?thesis by (simp add: edge_lookup_def)
  next
    case (Some nbrs)
    then have mem: "(u, nbrs) \<in> set (edge g)" by (rule map_of_SomeD)
    have "?c1 (u, nbrs) =
        (case map_of nbrs v of None \<Rightarrow> 0 | Some kd \<Rightarrow> (case map_of kd k of None \<Rightarrow> 0 | Some d \<Rightarrow> 1))"
      using l2 [OF wf(2) [OF mem] wf(3) [OF mem]] by simp
    then show ?thesis using Some by (simp add: edge_lookup_def split: option.splits)
  qed
  finally show ?thesis using count by simp
qed


lemma has_edge_lookup: "has_edge g u v (Some k) \<longleftrightarrow> edge_lookup g u v k \<noteq> None"
  by (simp add: has_edge_def edge_lookup_def subscript_def dict_in_def split: option.splits)

lemma add_unqualified_edge_present:
  "unqualified_edge_code r = Some key \<Longrightarrow> edge_lookup g u v key \<noteq> None \<Longrightarrow>
     add_unqualified_edge unqualified_edge_code g u v r = Inr g"
  by (simp add: add_unqualified_edge_def has_edge_lookup)

lemma add_unqualified_edge_result:
  assumes "wf_graph g" and "add_unqualified_edge unqualified_edge_code g u v r = Inr g1"
  shows "wf_graph g1"
proof (cases "unqualified_edge_code r")
  case None
  then show ?thesis using assms(2) by (simp add: add_unqualified_edge_def)
next
  case (Some key)
  then show ?thesis
    using assms wf_add_edge [OF assms(1)]
    by (auto simp: add_unqualified_edge_def split: if_splits)
qed

lemma add_unqualified_edge_adds:
  assumes "unqualified_edge_code r = Some key"
  shows "\<exists>g1. add_unqualified_edge unqualified_edge_code g u v r = Inr g1 \<and>
              edge_lookup g1 u v key \<noteq> None"
proof (cases "edge_lookup g u v key = None")
  case True
  then have "add_unqualified_edge unqualified_edge_code g u v r =
      Inr (fst (add_edge g u v (Some key) None
                  [RELATION \<mapsto> VStr r, ANNOTATIONS \<mapsto> VDict fmempty]))"
    using assms by (simp add: add_unqualified_edge_def has_edge_lookup)
  moreover have "edge_lookup (fst (add_edge g u v (Some key) None
                  [RELATION \<mapsto> VStr r, ANNOTATIONS \<mapsto> VDict fmempty])) u v key \<noteq> None"
    by (simp add: add_edge_lookup key_for_def)
  ultimately show ?thesis by simp
next
  case False
  then show ?thesis
    using add_unqualified_edge_present [of unqualified_edge_code r key g u v] assms by simp
qed

lemma add_unqualified_edges_wf:
  "wf_graph g \<Longrightarrow> add_unqualified_edges unqualified_edge_code g calls = Inr g' \<Longrightarrow> wf_graph g'"
proof (induction calls arbitrary: g)
  case Nil
  then show ?case by simp
next
  case (Cons c calls)
  obtain u v r where c: "c = (u, v, r)" by (cases c)
  from Cons.prems(2) obtain g1 where
    1: "add_unqualified_edge unqualified_edge_code g u v r = Inr g1"
    and 2: "add_unqualified_edges unqualified_edge_code g1 calls = Inr g'"
    by (auto simp: c split: sum.splits)
  from Cons.prems(1) 1 have "wf_graph g1"
    by (rule add_unqualified_edge_result)
  then show ?case using 2 by (rule Cons.IH)
qed

lemma add_unqualified_edges_replicate:
  assumes "add_unqualified_edge unqualified_edge_code g1 u v r = Inr g1"
  shows "add_unqualified_edges unqualified_edge_code g1 (replicate n (u, v, r)) = Inr g1"
  using assms by (induction n) simp_all

lemma count_distinct:
  "distinct xs \<Longrightarrow> length (filter (\<lambda>x. x = a) xs) = (if a \<in> set xs then 1 else 0)"
  by (induction xs) auto

lemma node_count_in:
  assumes "wf_graph g"
  shows "node_count g n = (if graph_contains g n then 1 else 0)"
proof -
  have d: "distinct (map fst (node g))"
    using assms by (simp add: wf_graph_def distinct_keys_def)
  have "node_count g n = length (filter (\<lambda>x. x = n) (map fst (node g)))"
    by (simp add: node_count_def nodes_iter_all filter_map o_def)
  also have "\<dots> = (if n \<in> set (map fst (node g)) then 1 else 0)"
    using d by (rule count_distinct)
  finally show ?thesis
    by (simp add: graph_contains_def dict_in_keys)
qed

lemma add_simple_node_present:
  "graph_contains g (f, ns, nm) \<Longrightarrow> add_simple_node g f ns nm = Inr g"
  by (simp add: add_simple_node_def Let_def)

lemma add_simple_node_adds:
  assumes "wf_graph g"
  shows "\<exists>g1. add_simple_node g f ns nm = Inr g1 \<and> wf_graph g1 \<and> graph_contains g1 (f, ns, nm)"
proof (cases "graph_contains g (f, ns, nm)")
  case True
  then show ?thesis using assms by (simp add: add_simple_node_present)
next
  case False
  let ?a = "[FUNCTION \<mapsto> VStr f, NAMESPACE \<mapsto> VStr ns, NAME \<mapsto> VStr nm]"
  let ?g1 = "g\<lparr>edge := AList.update (f, ns, nm) [] (edge g),
               node := AList.update (f, ns, nm) ?a (node g)\<rparr>"
  have "add_node g (f, ns, nm) None ?a = Inr (?g1, None)"
    using add_node_new [OF assms, of "(f, ns, nm)" None ?a] False
    by (simp add: graph_contains_def effective_attr_dict_def updated_attr_dict_def)
  then have "add_simple_node g f ns nm = Inr ?g1"
    using False by (simp add: add_simple_node_def Let_def)
  moreover have "wf_graph ?g1"
    using assms by (rule wf_node_insert)
  moreover have "graph_contains ?g1 (f, ns, nm)"
    by (simp add: graph_contains_def dict_in_update)
  ultimately show ?thesis by blast
qed

lemma set_node_label_ok:
  assumes "graph_contains g n"
  shows "\<exists>g2. set_node_label g n l = Inr g2 \<and> graph_contains g2 n \<and>
              get_node_label g2 n = Inr l"
proof -
  from assms obtain d where d: "map_of (node g) n = Some d"
    by (auto simp: graph_contains_def dict_in_def)
  then have "set_node_label g n l = Inr (g\<lparr>node := AList.update n (d(LABEL \<mapsto> l)) (node g)\<rparr>)"
    by (simp add: set_node_label_def subscript_def)
  then show ?thesis
    by (simp add: graph_contains_def dict_in_update get_node_label_def subscript_def
        update_conv' attr_get_def)
qed

lemma set_node_description_ok:
  assumes "graph_contains g n" and "get_node_label g n = Inr l"
  shows "\<exists>g3. set_node_description g n dsc = Inr g3 \<and> graph_contains g3 n \<and>
              get_node_label g3 n = Inr l \<and> get_node_description g3 n = Inr dsc"
proof -
  from assms(1) obtain d where d: "map_of (node g) n = Some d"
    by (auto simp: graph_contains_def dict_in_def)
  then have "set_node_description g n dsc =
      Inr (g\<lparr>node := AList.update n (d(DESCRIPTION \<mapsto> dsc)) (node g)\<rparr>)"
    by (simp add: set_node_description_def subscript_def)
  moreover have "attr_get (d(DESCRIPTION \<mapsto> dsc)) LABEL = l"
    using assms(2) d
    by (simp add: get_node_label_def subscript_def attr_get_def LABEL_def DESCRIPTION_def)
  ultimately show ?thesis
    by (simp add: graph_contains_def dict_in_update get_node_label_def get_node_description_def
        subscript_def update_conv' attr_get_def)
qed

section \<open>Every operation keeps graphs well-formed\<close>

text \<open>
  The graph a constructor returns is well-formed, and so is the result of every mutating
  method that returns normally, so the well-formed graphs include every graph the API
  can build.
\<close>

lemma wf_MultiDiGraph_init: "wf_graph (MultiDiGraph_init attr)"
  by (simp add: wf_graph_def MultiDiGraph_init_def distinct_keys_def)

lemma wf_graph_fields:
  "node g' = node g \<Longrightarrow> edge g' = edge g \<Longrightarrow> wf_graph g' = wf_graph g"
  by (simp add: wf_graph_def)

lemma wf_init_graph_key: "wf_graph (init_graph_key k v g) = wf_graph g"
  by (rule wf_graph_fields) (simp_all add: init_graph_key_def)

lemma fields_init_graph_key:
  "node (init_graph_key k v g) = node g" "edge (init_graph_key k v g) = edge g"
  by (simp_all add: init_graph_key_def)

lemma wf_BELGraph_init: "wf_graph (BELGraph_init ver kwargs :: 'n BELGraph)"
proof -
  have "node (BELGraph_init ver kwargs :: 'n BELGraph) = []"
    "edge (BELGraph_init ver kwargs :: 'n BELGraph) = []"
    unfolding BELGraph_init_def Let_def
    by (simp_all add: fields_init_graph_key MultiDiGraph_init_def)
  then show ?thesis
    by (simp add: wf_graph_def distinct_keys_def)
qed

lemma wf_add_warning: "wf_graph (add_warning g n l e c) = wf_graph g"
  by (rule wf_graph_fields) (simp_all add: add_warning_def)

lemma wf_node_update:
  assumes "wf_graph g" and "dict_in (node g) n"
  shows "wf_graph (g\<lparr>node := AList.update n a (node g)\<rparr>)"
proof -
  from assms(2) have "n \<in> fst ` set (node g)"
    by (simp add: dict_in_keys)
  then have "fst ` set (AList.update n a (node g)) = fst ` set (node g)"
    by (auto simp: dom_update)
  with assms(1) show ?thesis
    by (simp add: wf_graph_iff distinct_keys_update)
qed

lemma wf_add_node:
  assumes "wf_graph g" and "add_node g n attr_dict attr = Inr (g', a)"
  shows "wf_graph g'"
proof (cases "dict_in (edge g) n")
  case False
  with assms(2) have "g' = g\<lparr>edge := AList.update n [] (edge g),
      node := AList.update n (effective_attr_dict attr_dict attr) (node g)\<rparr>"
    by (simp add: add_node_def)
  with assms(1) show ?thesis
    by (simp add: wf_node_insert)
next
  case True
  then have "dict_in (node g) n"
    using assms(1) by (simp add: wf_graph_in_edge)
  moreover from True assms(2) obtain old where
    "g' = g\<lparr>node := AList.update n (old ++ effective_attr_dict attr_dict attr) (node g)\<rparr>"
    by (auto simp: add_node_def split: sum.splits)
  ultimately show ?thesis
    using assms(1) by (simp add: wf_node_update)
qed

lemma wf_set_node_label:
  assumes "wf_graph g" and "set_node_label g n l = Inr g'"
  shows "wf_graph g'"
proof -
  from assms(2) obtain d where "map_of (node g) n = Some d"
    and "g' = g\<lparr>node := AList.update n (d(LABEL \<mapsto> l)) (node g)\<rparr>"
    by (auto simp: set_node_label_def subscript_def split: option.splits)
  with assms(1) show ?thesis
    by (simp add: wf_node_update dict_in_def)
qed

lemma wf_set_node_description:
  assumes "wf_graph g" and "set_node_description g n l = Inr g'"
  shows "wf_graph g'"
proof -
  from assms(2) obtain d where "map_of (node g) n = Some d"
    and "g' = g\<lparr>node := AList.update n (d(DESCRIPTION \<mapsto> l)) (node g)\<rparr>"
    by (auto simp: set_node_description_def subscript_def split: option.splits)
  with assms(1) show ?thesis
    by (simp add: wf_node_update dict_in_def)
qed

section \<open>The example graphs\<close>

lemma ex_nodes_distinct: "ex_u \<noteq> ex_v" "ex_u \<noteq> ex_w" "ex_v \<noteq> ex_w"
  "ex_v \<noteq> ex_u" "ex_w \<noteq> ex_u" "ex_w \<noteq> ex_v"
  by (simp_all add: ex_u_def ex_v_def ex_w_def)

lemma wf_ex_g: "wf_graph ex_g"
  by (simp add: wf_graph_def ex_g_def distinct_keys_def ex_nodes_distinct)

lemma wf_ex_h: "wf_graph ex_h"
  by (simp add: wf_graph_def ex_h_def distinct_keys_def ex_nodes_distinct)

lemma wf_cx_g: "wf_graph cx_g"
  by (simp add: wf_graph_def cx_g_def distinct_keys_def ex_nodes_distinct)

lemma wf_cx_h: "wf_graph cx_h"
  by (simp add: wf_graph_def cx_h_def distinct_keys_def ex_nodes_distinct)

lemma cx_d_differs: "ex_unq \<noteq> cx_d"
proof
  assume "ex_unq = cx_d"
  then have "ex_unq EVIDENCE = cx_d EVIDENCE" by simp
  then show False
    by (simp add: ex_unq_def cx_d_def EVIDENCE_def RELATION_def ANNOTATIONS_def)
qed

lemma ex_q_differ: "ex_q2 \<noteq> ex_q1"
proof
  assume "ex_q2 = ex_q1"
  then have "ex_q2 RELATION = ex_q1 RELATION" by simp
  then show False
    by (simp add: ex_q1_def ex_q2_def RELATION_def EVIDENCE_def CITATION_def ANNOTATIONS_def)
qed

lemma fresh_key_2: "fresh_key [(- 1, a), (0, b)] 2 = 2"
  by (subst fresh_key.simps) (simp add: dict_in_def)

lemma left_full_merge_example: "left_full_merge ex_g ex_h = Inr (ex_merged, ex_h)"
proof -
  have nodes: "merge_nodes ex_g ex_h (nodes_iter ex_h False []) =
      Inr (ex_g\<lparr>edge := [(ex_u, [(ex_v, [(- 1, ex_unq), (0, ex_q1)])]), (ex_v, []), (ex_w, [])],
                node := [(ex_u, [LABEL \<mapsto> VStr ''receiver'']), (ex_v, Map.empty),
                         (ex_w, Map.empty)]\<rparr>, ex_h)"
    by (simp add: nodes_iter_def MultiDiGraph_nodes_iter_def subdict_matches_def
        graph_contains_def dict_in_def subscript_def add_node_def effective_attr_dict_def
        updated_attr_dict_def store_node_data_def ex_g_def ex_h_def ex_nodes_distinct)
  have es: "edges_iter ex_h None True True [] =
      [UVKD ex_u ex_v 0 ex_q1, UVKD ex_u ex_v 1 ex_q2, UVKD ex_u ex_w (- 2) ex_unq2]"
    by (simp add: edges_iter_def MultiDiGraph_edges_iter_def nodes_nbrs_def subdict_matches_def
        ex_h_def)
  have edges: "merge_edges
      (ex_g\<lparr>edge := [(ex_u, [(ex_v, [(- 1, ex_unq), (0, ex_q1)])]), (ex_v, []), (ex_w, [])],
            node := [(ex_u, [LABEL \<mapsto> VStr ''receiver'']), (ex_v, Map.empty),
                     (ex_w, Map.empty)]\<rparr>) ex_h
      [UVKD ex_u ex_v 0 ex_q1, UVKD ex_u ex_v 1 ex_q2, UVKD ex_u ex_w (- 2) ex_unq2]
      = Inr (ex_merged, ex_h)"
    using ex_q_differ
    by (simp add: subscript_def dict_in_def add_edge_def ensure_node_def Let_def
        effective_attr_dict_def updated_attr_dict_def store_edge_data_def fresh_key_2
        ex_g_def ex_h_def ex_merged_def ex_nodes_distinct)
  show ?thesis
    by (simp only: left_full_merge_def nodes sum.case prod.case es edges)
qed

section \<open>Merging: results\<close>

text \<open>
  C1, as amended. For well-formed graphs \<open>g\<close> and \<open>h\<close>, \<open>left_full_merge(g, h)\<close> returns
  without an error and leaves \<open>h\<close> as it was. Afterwards every node of \<open>h\<close> is a node of
  \<open>g\<close>, with the donor's attributes when the node was not in \<open>g\<close> before. For every edge
  \<open>(u, v, k)\<close> of \<open>h\<close> with data \<open>d\<close> there is an edge between \<open>u\<close> and \<open>v\<close> in \<open>g\<close> with
  data \<open>d\<close>, unless \<open>k\<close> is negative and \<open>g\<close> already had an edge under the key \<open>k\<close> between
  \<open>u\<close> and \<open>v\<close> with other data. Every node of \<open>g\<close> keeps its attributes and every edge of
  \<open>g\<close> keeps its key and data.

  Nothing else is added. Every edge \<open>(u, v, k')\<close> of \<open>g\<close> after the merge, with data \<open>d\<close>,
  was this edge of \<open>g\<close> before, or the key \<open>k'\<close> was free between \<open>u\<close> and \<open>v\<close> in \<open>g\<close> and
  \<open>h\<close> has an edge between \<open>u\<close> and \<open>v\<close> with data \<open>d\<close> under a key \<open>k\<close>, where \<open>k' = k\<close> when
  \<open>k\<close> is negative and \<open>k'\<close> is non-negative otherwise. So for an edge of \<open>h\<close> whose negative
  key \<open>g\<close> already uses between the same nodes, nothing is added. Two edges of \<open>g\<close> after
  the merge between the same nodes, under different non-negative keys and with the same
  data, were both edges of \<open>g\<close> before. Every node of \<open>g\<close> after the merge, with its
  attributes, was so in \<open>g\<close> before, or is a node of \<open>h\<close> that was not in \<open>g\<close>, with the
  attributes it has in \<open>h\<close>, or is the target of an edge of \<open>h\<close> that is a node of neither
  graph, and then has no attributes. The graph attributes, the warnings and the
  singleton flag of \<open>g\<close> are unchanged.
\<close>

theorem left_full_merge_additive:
  assumes "wf_graph g" and "wf_graph h"
  shows "\<exists>g'. left_full_merge g h = Inr (g', h) \<and>
           (\<forall>n. graph_contains h n \<longrightarrow> graph_contains g' n) \<and>
           (\<forall>n a. subscript (node h) n = Inr a \<and> \<not> graph_contains g n \<longrightarrow>
                    subscript (node g') n = Inr a) \<and>
           (\<forall>u v k d. edge_data h u v k = Inr d \<and>
                        (k < 0 \<longrightarrow> edge_data g u v k = Inl KeyError \<or>
                                    edge_data g u v k = Inr d) \<longrightarrow>
                    (\<exists>k'. edge_data g' u v k' = Inr d)) \<and>
           (\<forall>n a. subscript (node g) n = Inr a \<longrightarrow> subscript (node g') n = Inr a) \<and>
           (\<forall>u v k d. edge_data g u v k = Inr d \<longrightarrow> edge_data g' u v k = Inr d) \<and>
           (\<forall>u v k' d. edge_data g' u v k' = Inr d \<longrightarrow>
                    edge_data g u v k' = Inr d \<or>
                    (edge_data g u v k' = Inl KeyError \<and>
                     (\<exists>k. edge_data h u v k = Inr d \<and>
                          (if k < 0 then k' = k else 0 \<le> k')))) \<and>
           (\<forall>u v k1 k2 d. 0 \<le> k1 \<and> 0 \<le> k2 \<and> k1 \<noteq> k2 \<and>
                    edge_data g' u v k1 = Inr d \<and> edge_data g' u v k2 = Inr d \<longrightarrow>
                    edge_data g u v k1 = Inr d \<and> edge_data g u v k2 = Inr d) \<and>
           (\<forall>n a. subscript (node g') n = Inr a \<longrightarrow>
                    subscript (node g) n = Inr a \<or>
                    (\<not> graph_contains g n \<and> subscript (node h) n = Inr a) \<or>
                    (\<not> graph_contains g n \<and> \<not> graph_contains h n \<and> a = Map.empty \<and>
                     (\<exists>u k d. edge_data h u n k = Inr d))) \<and>
           graph_attrs g' = graph_attrs g \<and> warnings g' = warnings g \<and>
           has_singleton_terms g' = has_singleton_terms g"
proof -
  from left_full_merge_ok [OF assms]
  obtain g' where run: "left_full_merge g h = Inr (g', h)" and m: "merged g h g'"
    by blast
  from left_full_merge_frame [OF assms run] have f: "merge_frame g h g'" .
  have 1: "\<forall>n. graph_contains h n \<longrightarrow> graph_contains g' n"
    using merged_contains [OF m] by (simp add: graph_contains_def)
  have 2: "\<forall>n a. subscript (node h) n = Inr a \<and> \<not> graph_contains g n \<longrightarrow>
                    subscript (node g') n = Inr a"
    using merged_node_donor [OF m] by (simp add: graph_contains_def subscript_map_of)
  have 3: "\<forall>u v k d. edge_data h u v k = Inr d \<and>
                        (k < 0 \<longrightarrow> edge_data g u v k = Inl KeyError \<or>
                                    edge_data g u v k = Inr d) \<longrightarrow>
                    (\<exists>k'. edge_data g' u v k' = Inr d)"
  proof (intro allI impI)
    fix u v k d
    assume a: "edge_data h u v k = Inr d \<and>
      (k < 0 \<longrightarrow> edge_data g u v k = Inl KeyError \<or> edge_data g u v k = Inr d)"
    then have sat: "if k < 0
           then edge_lookup g' u v k \<noteq> None \<and>
                (edge_lookup g u v k = None \<longrightarrow> edge_lookup g' u v k = Some d)
           else \<exists>gk\<ge>0. edge_lookup g' u v gk = Some d"
      using m unfolding merged_def edge_data_Inr by blast
    have keep: "edge_lookup g u v k = Some d \<Longrightarrow> edge_lookup g' u v k = Some d"
      using m unfolding merged_def by blast
    from a sat keep show "\<exists>k'. edge_data g' u v k' = Inr d"
      unfolding edge_data_Inr edge_data_Inl by (cases "k < 0") auto
  qed
  have 4: "\<forall>n a. subscript (node g) n = Inr a \<longrightarrow> subscript (node g') n = Inr a"
    using merged_node_receiver [OF m] by (simp add: subscript_map_of)
  have 5: "\<forall>u v k d. edge_data g u v k = Inr d \<longrightarrow> edge_data g' u v k = Inr d"
    using m unfolding merged_def edge_data_Inr by blast
  have 6: "\<forall>u v k' d. edge_data g' u v k' = Inr d \<longrightarrow>
                    edge_data g u v k' = Inr d \<or>
                    (edge_data g u v k' = Inl KeyError \<and>
                     (\<exists>k. edge_data h u v k = Inr d \<and>
                          (if k < 0 then k' = k else 0 \<le> k')))"
    using f unfolding merge_frame_def edge_data_Inr edge_data_Inl by (elim conjE)
  have 7: "\<forall>u v k1 k2 d. 0 \<le> k1 \<and> 0 \<le> k2 \<and> k1 \<noteq> k2 \<and>
                    edge_data g' u v k1 = Inr d \<and> edge_data g' u v k2 = Inr d \<longrightarrow>
                    edge_data g u v k1 = Inr d \<and> edge_data g u v k2 = Inr d"
    using f unfolding merge_frame_def edge_data_Inr by (elim conjE)
  have 8: "\<forall>n a. subscript (node g') n = Inr a \<longrightarrow>
                    subscript (node g) n = Inr a \<or>
                    (\<not> graph_contains g n \<and> subscript (node h) n = Inr a) \<or>
                    (\<not> graph_contains g n \<and> \<not> graph_contains h n \<and> a = Map.empty \<and>
                     (\<exists>u k d. edge_data h u n k = Inr d))"
    using f unfolding merge_frame_def edge_data_Inr subscript_map_of graph_contains_def
    by (elim conjE)
  have 9: "graph_attrs g' = graph_attrs g" "warnings g' = warnings g"
    "has_singleton_terms g' = has_singleton_terms g"
    using m unfolding merged_def by simp_all
  show ?thesis
    by (rule exI [of _ g'], intro conjI) (rule run 1 2 3 4 5 6 7 8 9)+
qed

text \<open>The theorem at the example graphs: the donor's own node and edges arrive, the
  receiver's label and its unqualified edge stay. At \<open>cx_g\<close> and \<open>cx_h\<close>, where the donor's
  negative key is taken, the receiver's edge stays and the theorem leaves no room for an
  edge with the donor's data, under the keys 0 and 1 or any other.\<close>

theorem left_full_merge_additive_witness:
  "wf_graph ex_g \<and> wf_graph ex_h \<and>
   (\<exists>g'. left_full_merge ex_g ex_h = Inr (g', ex_h) \<and>
      graph_contains g' ex_w \<and> subscript (node g') ex_w = Inr Map.empty \<and>
      (\<exists>k'. edge_data g' ex_u ex_v k' = Inr ex_q2) \<and>
      (\<exists>k'. edge_data g' ex_u ex_w k' = Inr ex_unq2) \<and>
      subscript (node g') ex_u = Inr [LABEL \<mapsto> VStr ''receiver''] \<and>
      edge_data g' ex_u ex_v (- 1) = Inr ex_unq) \<and>
   wf_graph cx_g \<and> wf_graph cx_h \<and>
   (\<exists>g'. left_full_merge cx_g cx_h = Inr (g', cx_h) \<and>
      edge_data g' ex_u ex_v (- 1) = Inr ex_unq \<and>
      edge_data g' ex_u ex_v 0 = Inl KeyError \<and>
      edge_data g' ex_u ex_v 1 = Inl KeyError \<and>
      (\<forall>k. edge_data g' ex_u ex_v k \<noteq> Inr cx_d))"
proof -
  have h1: "graph_contains ex_h ex_w" "subscript (node ex_h) ex_w = Inr Map.empty"
    "edge_data ex_h ex_u ex_v 1 = Inr ex_q2" "edge_data ex_h ex_u ex_w (- 2) = Inr ex_unq2"
    by (simp_all add: graph_contains_def dict_in_def edge_data_def subscript_def ex_h_def
        ex_nodes_distinct)
  have g1: "\<not> graph_contains ex_g ex_w" "edge_data ex_g ex_u ex_w (- 2) = Inl KeyError"
    "subscript (node ex_g) ex_u = Inr [LABEL \<mapsto> VStr ''receiver'']"
    "edge_data ex_g ex_u ex_v (- 1) = Inr ex_unq"
    by (simp_all add: graph_contains_def dict_in_def edge_data_def subscript_def ex_g_def
        ex_nodes_distinct)
  from left_full_merge_additive [OF wf_ex_g wf_ex_h]
  obtain g' where g': "left_full_merge ex_g ex_h = Inr (g', ex_h)"
    "\<forall>n. graph_contains ex_h n \<longrightarrow> graph_contains g' n"
    "\<forall>n a. subscript (node ex_h) n = Inr a \<and> \<not> graph_contains ex_g n \<longrightarrow>
            subscript (node g') n = Inr a"
    "\<forall>u v k d. edge_data ex_h u v k = Inr d \<and>
                (k < 0 \<longrightarrow> edge_data ex_g u v k = Inl KeyError \<or>
                            edge_data ex_g u v k = Inr d) \<longrightarrow>
            (\<exists>k'. edge_data g' u v k' = Inr d)"
    "\<forall>n a. subscript (node ex_g) n = Inr a \<longrightarrow> subscript (node g') n = Inr a"
    "\<forall>u v k d. edge_data ex_g u v k = Inr d \<longrightarrow> edge_data g' u v k = Inr d"
    by (elim exE conjE)
  have "graph_contains g' ex_w" using g'(2) h1(1) by blast
  moreover have "subscript (node g') ex_w = Inr Map.empty" using g'(3) h1(2) g1(1) by blast
  moreover have "\<exists>k'. edge_data g' ex_u ex_v k' = Inr ex_q2"
    using g'(4) [rule_format, of ex_u ex_v 1 ex_q2] h1(3) by simp
  moreover have "\<exists>k'. edge_data g' ex_u ex_w k' = Inr ex_unq2"
    using g'(4) [rule_format, of ex_u ex_w "- 2" ex_unq2] h1(4) g1(2) by simp
  moreover have "subscript (node g') ex_u = Inr [LABEL \<mapsto> VStr ''receiver'']"
    using g'(5) g1(3) by blast
  moreover have "edge_data g' ex_u ex_v (- 1) = Inr ex_unq"
    using g'(6) g1(4) by blast
  ultimately have ex: "\<exists>g'. left_full_merge ex_g ex_h = Inr (g', ex_h) \<and>
      graph_contains g' ex_w \<and> subscript (node g') ex_w = Inr Map.empty \<and>
      (\<exists>k'. edge_data g' ex_u ex_v k' = Inr ex_q2) \<and>
      (\<exists>k'. edge_data g' ex_u ex_w k' = Inr ex_unq2) \<and>
      subscript (node g') ex_u = Inr [LABEL \<mapsto> VStr ''receiver''] \<and>
      edge_data g' ex_u ex_v (- 1) = Inr ex_unq"
    using g'(1) by blast
  have cg: "edge_data cx_g ex_u ex_v (- 1) = Inr ex_unq"
    by (simp add: edge_data_def subscript_def cx_g_def ex_nodes_distinct)
  have cg_only: "edge_data cx_g ex_u ex_v k = Inr d \<Longrightarrow> k = - 1 \<and> d = ex_unq" for k d
    by (simp add: edge_data_def subscript_def cx_g_def ex_nodes_distinct split: if_splits)
  have ch_only: "edge_data cx_h ex_u ex_v k = Inr d \<Longrightarrow> k = - 1 \<and> d = cx_d" for k d
    by (simp add: edge_data_def subscript_def cx_h_def ex_nodes_distinct split: if_splits)
  from left_full_merge_additive [OF wf_cx_g wf_cx_h]
  obtain c' where c': "left_full_merge cx_g cx_h = Inr (c', cx_h)"
    "\<forall>u v k d. edge_data cx_g u v k = Inr d \<longrightarrow> edge_data c' u v k = Inr d"
    "\<forall>u v k' d. edge_data c' u v k' = Inr d \<longrightarrow>
         edge_data cx_g u v k' = Inr d \<or>
         (edge_data cx_g u v k' = Inl KeyError \<and>
          (\<exists>k. edge_data cx_h u v k = Inr d \<and> (if k < 0 then k' = k else 0 \<le> k')))"
    by (elim exE conjE)
  have only: "k = - 1 \<and> d = ex_unq" if e: "edge_data c' ex_u ex_v k = Inr d" for k d
  proof -
    from c'(3) [rule_format, OF e]
    have "edge_data cx_g ex_u ex_v k = Inr d \<or>
         (edge_data cx_g ex_u ex_v k = Inl KeyError \<and>
          (\<exists>k0. edge_data cx_h ex_u ex_v k0 = Inr d \<and> (if k0 < 0 then k = k0 else 0 \<le> k)))" .
    then show ?thesis
    proof
      assume "edge_data cx_g ex_u ex_v k = Inr d"
      then show ?thesis by (rule cg_only)
    next
      assume "edge_data cx_g ex_u ex_v k = Inl KeyError \<and>
          (\<exists>k0. edge_data cx_h ex_u ex_v k0 = Inr d \<and> (if k0 < 0 then k = k0 else 0 \<le> k))"
      then obtain k0 where free: "edge_data cx_g ex_u ex_v k = Inl KeyError"
        and d: "edge_data cx_h ex_u ex_v k0 = Inr d" and k: "if k0 < 0 then k = k0 else 0 \<le> k"
        by (elim exE conjE)
      from ch_only [OF d] k have "k = - 1" by simp
      with free cg show ?thesis by simp
    qed
  qed
  have none: "edge_data c' ex_u ex_v k = Inl KeyError" if "k \<noteq> - 1" for k
  proof (cases "edge_lookup c' ex_u ex_v k")
    case None
    then show ?thesis by (simp add: edge_data_Inl)
  next
    case (Some d)
    then have "edge_data c' ex_u ex_v k = Inr d" by (simp add: edge_data_Inr)
    from only [OF this] that show ?thesis by simp
  qed
  have c1: "edge_data c' ex_u ex_v (- 1) = Inr ex_unq"
    using c'(2) cg by blast
  have c2: "edge_data c' ex_u ex_v 0 = Inl KeyError" by (rule none) simp
  have c3: "edge_data c' ex_u ex_v 1 = Inl KeyError" by (rule none) simp
  have c4: "\<forall>k. edge_data c' ex_u ex_v k \<noteq> Inr cx_d"
  proof (intro allI notI)
    fix k assume "edge_data c' ex_u ex_v k = Inr cx_d"
    from only [OF this] cx_d_differs show False by simp
  qed
  have cx: "\<exists>g'. left_full_merge cx_g cx_h = Inr (g', cx_h) \<and>
      edge_data g' ex_u ex_v (- 1) = Inr ex_unq \<and>
      edge_data g' ex_u ex_v 0 = Inl KeyError \<and>
      edge_data g' ex_u ex_v 1 = Inl KeyError \<and>
      (\<forall>k. edge_data g' ex_u ex_v k \<noteq> Inr cx_d)"
    by (rule exI [of _ c'], intro conjI) (rule c' (1) c1 c2 c3 c4)+
  from wf_ex_g wf_ex_h ex wf_cx_g wf_cx_h cx show ?thesis
    by (intro conjI)
qed

text \<open>
  The claim as stated, that every edge of \<open>h\<close> with data \<open>d\<close> has an edge with data \<open>d\<close>
  between the same nodes in \<open>g\<close> after the merge, fails when both graphs have an edge under
  the same negative key between the same nodes with different data: the merge of \<open>cx_h\<close>
  into \<open>cx_g\<close> changes nothing, and no edge of \<open>cx_g\<close> has the donor's data.
\<close>

theorem left_full_merge_present_key_counterexample:
  "wf_graph cx_g \<and> wf_graph cx_h \<and> left_full_merge cx_g cx_h = Inr (cx_g, cx_h) \<and>
   edge_data cx_h ex_u ex_v (- 1) = Inr cx_d \<and>
   (\<forall>k. edge_data cx_g ex_u ex_v k \<noteq> Inr cx_d)"
proof -
  have run: "left_full_merge cx_g cx_h = Inr (cx_g, cx_h)"
    by (simp add: left_full_merge_def nodes_iter_def MultiDiGraph_nodes_iter_def
        edges_iter_def MultiDiGraph_edges_iter_def nodes_nbrs_def subdict_matches_def
        graph_contains_def dict_in_def subscript_def cx_g_def cx_h_def ex_nodes_distinct)
  have h: "edge_data cx_h ex_u ex_v (- 1) = Inr cx_d"
    by (simp add: edge_data_def subscript_def cx_h_def ex_nodes_distinct)
  have g: "edge_data cx_g ex_u ex_v k \<noteq> Inr cx_d" for k
    using cx_d_differs
    by (simp add: edge_data_def subscript_def cx_g_def ex_nodes_distinct)
  from wf_cx_g wf_cx_h run h g show ?thesis by blast
qed

text \<open>
  C2. For well-formed graphs \<open>g\<close> and \<open>h\<close>, a second \<open>left_full_merge(g, h)\<close> right after
  the first leaves \<open>g\<close> exactly as the first call left it: the same nodes, edge keys and
  data, so no edge is added by the second call, qualified or unqualified; both calls
  return without an error and leave \<open>h\<close> as it was.
\<close>

theorem left_full_merge_idempotent:
  assumes "wf_graph g" and "wf_graph h"
  shows "\<exists>g1. left_full_merge g h = Inr (g1, h) \<and> left_full_merge g1 h = Inr (g1, h)"
proof -
  from left_full_merge_ok [OF assms]
  obtain g1 where run: "left_full_merge g h = Inr (g1, h)" and m: "merged g h g1"
    by blast
  have "\<forall>n \<in> set (map fst (node h)). dict_in (node g1) n"
    using merged_contains [OF m] by (simp add: dict_in_keys)
  then have n2: "merge_nodes g1 h (nodes_iter h False []) = Inr (g1, h)"
    unfolding nodes_iter_all by (rule merge_nodes_noop)
  have "\<forall>(u, v, k, d) \<in> set (MultiDiGraph_edges_iter h None). dict_in (edge g1) u \<and>
             (if k < 0 then edge_lookup g1 u v k \<noteq> None
              else \<exists>gk\<ge>0. edge_lookup g1 u v gk = Some d)"
  proof -
    have "dict_in (edge g1) u \<and>
             (if k < 0 then edge_lookup g1 u v k \<noteq> None
              else \<exists>gk\<ge>0. edge_lookup g1 u v gk = Some d)"
      if "(u, v, k, d) \<in> set (MultiDiGraph_edges_iter h None)" for u v k d
    proof -
      from that assms(2) have l: "edge_lookup h u v k = Some d"
        by (simp add: wf_graph_edges_iter)
      then have "dict_in (node h) u"
        using assms(2) edge_lookup_source [of h u v k d] by (simp add: wf_graph_in_edge)
      then have "dict_in (edge g1) u"
        using m unfolding merged_def by blast
      moreover have "if k < 0
           then edge_lookup g1 u v k \<noteq> None \<and>
                (edge_lookup g u v k = None \<longrightarrow> edge_lookup g1 u v k = Some d)
           else \<exists>gk\<ge>0. edge_lookup g1 u v gk = Some d"
        using m l unfolding merged_def by blast
      ultimately show ?thesis by (auto split: if_splits)
    qed
    then show ?thesis by blast
  qed
  then have e2: "merge_edges g1 h (edges_iter h None True True []) = Inr (g1, h)"
    unfolding edges_iter_all by (rule merge_edges_noop)
  have "left_full_merge g1 h = Inr (g1, h)"
    by (simp add: left_full_merge_def n2 e2)
  with run show ?thesis by blast
qed

theorem left_full_merge_idempotent_witness:
  "wf_graph ex_g \<and> wf_graph ex_h \<and>
   (\<exists>g1. left_full_merge ex_g ex_h = Inr (g1, ex_h) \<and> left_full_merge g1 ex_h = Inr (g1, ex_h))"
  using left_full_merge_idempotent [OF wf_ex_g wf_ex_h] wf_ex_g wf_ex_h by blast

text \<open>
  C8. When well-formed graphs \<open>g\<close> and \<open>h\<close> both have the node \<open>n\<close>, with different
  attribute dictionaries \<open>a\<close> and \<open>b\<close>, \<open>left_full_merge(g, h)\<close> returns without an error,
  \<open>g\<close> still has the attributes \<open>a\<close> for \<open>n\<close>, and the warning log of \<open>g\<close> is unchanged (as
  is all of \<open>h\<close>).
\<close>

theorem left_full_merge_keeps_receiver_node:
  assumes "wf_graph g" and "wf_graph h"
    and "subscript (node g) n = Inr a" and "subscript (node h) n = Inr b" and "a \<noteq> b"
  shows "\<exists>g'. left_full_merge g h = Inr (g', h) \<and> subscript (node g') n = Inr a \<and>
              warnings g' = warnings g"
proof -
  from left_full_merge_ok [OF assms(1,2)]
  obtain g' where run: "left_full_merge g h = Inr (g', h)" and m: "merged g h g'"
    by blast
  have "subscript (node g') n = Inr a"
    using merged_node_receiver [OF m, of n a] assms(3) by (simp add: subscript_map_of)
  moreover have "warnings g' = warnings g"
    using m by (simp add: merged_def)
  ultimately show ?thesis using run by blast
qed

theorem left_full_merge_keeps_receiver_node_witness:
  "wf_graph ex_g \<and> wf_graph ex_h \<and>
   subscript (node ex_g) ex_u = Inr [LABEL \<mapsto> VStr ''receiver''] \<and>
   subscript (node ex_h) ex_u = Inr [LABEL \<mapsto> VStr ''donor''] \<and>
   [LABEL \<mapsto> VStr ''receiver''] \<noteq> [LABEL \<mapsto> VStr ''donor''] \<and>
   (\<exists>g'. left_full_merge ex_g ex_h = Inr (g', ex_h) \<and>
      subscript (node g') ex_u = Inr [LABEL \<mapsto> VStr ''receiver''] \<and>
      warnings g' = warnings ex_g)"
proof -
  have a: "subscript (node ex_g) ex_u = Inr [LABEL \<mapsto> VStr ''receiver'']"
    by (simp add: subscript_def ex_g_def)
  have b: "subscript (node ex_h) ex_u = Inr [LABEL \<mapsto> VStr ''donor'']"
    by (simp add: subscript_def ex_h_def)
  have ne: "[LABEL \<mapsto> VStr ''receiver''] \<noteq> [LABEL \<mapsto> VStr ''donor'']"
  proof
    assume "[LABEL \<mapsto> VStr ''receiver''] = [LABEL \<mapsto> VStr ''donor'']"
    then have "[LABEL \<mapsto> VStr ''receiver''] LABEL = [LABEL \<mapsto> VStr ''donor''] LABEL"
      by simp
    then show False by simp
  qed
  from left_full_merge_keeps_receiver_node [OF wf_ex_g wf_ex_h a b ne] wf_ex_g wf_ex_h a b ne
  show ?thesis by blast
qed

section \<open>Idempotent insertion: results\<close>

text \<open>
  C3. An unqualified edge of relation \<open>r\<close> is an edge under the key that
  \<open>unqualified_edge_code\<close> reserves for \<open>r\<close>. On a well-formed graph, and for a relation the
  table knows, \<open>add_unqualified_edge(u, v, r)\<close> returns a graph in which the iteration of
  the edges meets that key between \<open>u\<close> and \<open>v\<close> exactly once; a second call on the result
  returns the result unchanged, and so does any longer run of the same call. After any
  sequence of \<open>add_unqualified_edge\<close> calls whatsoever that raises no error, the key is
  met at most once between \<open>u\<close> and \<open>v\<close>.
\<close>

theorem add_unqualified_edge_unique:
  fixes g :: "'n BELGraph"
  assumes "wf_graph g" and "unqualified_edge_code r = Some key"
  shows "\<exists>g1. add_unqualified_edge unqualified_edge_code g u v r = Inr g1 \<and>
              edge_count g1 u v key = 1 \<and>
              add_unqualified_edge unqualified_edge_code g1 u v r = Inr g1 \<and>
              (\<forall>n. add_unqualified_edges unqualified_edge_code g (replicate (Suc n) (u, v, r))
                      = Inr g1) \<and>
              (\<forall>calls g'. add_unqualified_edges unqualified_edge_code g calls = Inr g' \<longrightarrow>
                      edge_count g' u v key \<le> 1)"
proof -
  from add_unqualified_edge_adds [of unqualified_edge_code r key g u v, OF assms(2)]
  obtain g1 where g1: "add_unqualified_edge unqualified_edge_code g u v r = Inr g1"
    and present: "edge_lookup g1 u v key \<noteq> None"
    by blast
  have wf1: "wf_graph g1"
    using assms(1) g1 by (rule add_unqualified_edge_result)
  have one: "edge_count g1 u v key = 1"
    using present by (auto simp: edge_count_lookup [OF wf1])
  have again: "add_unqualified_edge unqualified_edge_code g1 u v r = Inr g1"
    using add_unqualified_edge_present [of unqualified_edge_code r key g1 u v] assms(2) present
    by simp
  have rep: "add_unqualified_edges unqualified_edge_code g (replicate (Suc n) (u, v, r)) = Inr g1"
    for n
    using g1 add_unqualified_edges_replicate [OF again, of n] by simp
  have most: "edge_count g' u v key \<le> 1"
    if "add_unqualified_edges unqualified_edge_code g calls = Inr g'" for calls g'
  proof -
    from assms(1) that have "wf_graph g'"
      by (rule add_unqualified_edges_wf)
    then show ?thesis
      by (simp add: edge_count_lookup split: option.splits)
  qed
  from g1 one again rep most show ?thesis by blast
qed

theorem add_unqualified_edge_unique_witness:
  "wf_graph ex_g \<and> ex_code ''transcribedTo'' = Some (- 2) \<and>
   (\<exists>g1. add_unqualified_edge ex_code ex_g ex_u ex_w ''transcribedTo'' = Inr g1 \<and>
      edge_count g1 ex_u ex_w (- 2) = 1 \<and>
      add_unqualified_edge ex_code g1 ex_u ex_w ''transcribedTo'' = Inr g1 \<and>
      add_unqualified_edges ex_code ex_g
        [(ex_u, ex_w, ''transcribedTo''), (ex_u, ex_w, ''transcribedTo'')] = Inr g1)"
proof -
  have c: "ex_code ''transcribedTo'' = Some (- 2)"
    by (simp add: ex_code_def)
  from add_unqualified_edge_unique [of ex_g ex_code "''transcribedTo''" "- 2" ex_u ex_w,
      OF wf_ex_g c]
  obtain g1 where g1: "add_unqualified_edge ex_code ex_g ex_u ex_w ''transcribedTo'' = Inr g1"
    "edge_count g1 ex_u ex_w (- 2) = 1"
    "add_unqualified_edge ex_code g1 ex_u ex_w ''transcribedTo'' = Inr g1"
    "\<forall>n. add_unqualified_edges ex_code ex_g (replicate (Suc n) (ex_u, ex_w, ''transcribedTo''))
            = Inr g1"
    by blast
  from g1(4) have "add_unqualified_edges ex_code ex_g
      (replicate (Suc (Suc 0)) (ex_u, ex_w, ''transcribedTo'')) = Inr g1"
    by blast
  then have "add_unqualified_edges ex_code ex_g
        [(ex_u, ex_w, ''transcribedTo''), (ex_u, ex_w, ''transcribedTo'')] = Inr g1"
    by (simp del: add_unqualified_edges.simps)
  with wf_ex_g c g1(1,2,3) show ?thesis by blast
qed

text \<open>
  C7. On a well-formed graph \<open>add_simple_node(function, namespace, name)\<close> returns a graph
  whose node iteration meets the node \<open>(function, namespace, name)\<close> exactly once. A second
  call returns that graph unchanged; and when a label and a description are set on the
  node in between, the second call again changes nothing, so the label and the
  description read back as they were set.
\<close>

theorem add_simple_node_idempotent:
  assumes "wf_graph g"
  shows "\<exists>g1. add_simple_node g f ns nm = Inr g1 \<and>
              node_count g1 (f, ns, nm) = 1 \<and>
              add_simple_node g1 f ns nm = Inr g1 \<and>
              (\<forall>l dsc. \<exists>g2 g3.
                  set_node_label g1 (f, ns, nm) l = Inr g2 \<and>
                  set_node_description g2 (f, ns, nm) dsc = Inr g3 \<and>
                  add_simple_node g3 f ns nm = Inr g3 \<and>
                  get_node_label g3 (f, ns, nm) = Inr l \<and>
                  get_node_description g3 (f, ns, nm) = Inr dsc)"
proof -
  from add_simple_node_adds [OF assms, of f ns nm]
  obtain g1 where g1: "add_simple_node g f ns nm = Inr g1" "wf_graph g1"
    "graph_contains g1 (f, ns, nm)"
    by blast
  have one: "node_count g1 (f, ns, nm) = 1"
    using g1(2,3) by (simp add: node_count_in)
  have again: "add_simple_node g1 f ns nm = Inr g1"
    using g1(3) by (rule add_simple_node_present)
  have between: "\<exists>g2 g3.
      set_node_label g1 (f, ns, nm) l = Inr g2 \<and>
      set_node_description g2 (f, ns, nm) dsc = Inr g3 \<and>
      add_simple_node g3 f ns nm = Inr g3 \<and>
      get_node_label g3 (f, ns, nm) = Inr l \<and>
      get_node_description g3 (f, ns, nm) = Inr dsc" for l dsc
  proof -
    from set_node_label_ok [OF g1(3), of l]
    obtain g2 where g2: "set_node_label g1 (f, ns, nm) l = Inr g2"
      "graph_contains g2 (f, ns, nm)" "get_node_label g2 (f, ns, nm) = Inr l"
      by blast
    from set_node_description_ok [OF g2(2,3), of dsc]
    obtain g3 where g3: "set_node_description g2 (f, ns, nm) dsc = Inr g3"
      "graph_contains g3 (f, ns, nm)" "get_node_label g3 (f, ns, nm) = Inr l"
      "get_node_description g3 (f, ns, nm) = Inr dsc"
      by blast
    from g3(2) have "add_simple_node g3 f ns nm = Inr g3"
      by (rule add_simple_node_present)
    with g2(1) g3 show ?thesis by blast
  qed
  from g1(1) one again between show ?thesis by blast
qed

theorem add_simple_node_idempotent_witness:
  "wf_graph ex_g \<and>
   (\<exists>g1. add_simple_node ex_g ''Gene'' ''HGNC'' ''AKT1'' = Inr g1 \<and>
      node_count g1 (''Gene'', ''HGNC'', ''AKT1'') = 1 \<and>
      add_simple_node g1 ''Gene'' ''HGNC'' ''AKT1'' = Inr g1 \<and>
      (\<exists>g2 g3.
          set_node_label g1 (''Gene'', ''HGNC'', ''AKT1'') (VStr ''AKT1 gene'') = Inr g2 \<and>
          set_node_description g2 (''Gene'', ''HGNC'', ''AKT1'') (VStr ''kinase'') = Inr g3 \<and>
          add_simple_node g3 ''Gene'' ''HGNC'' ''AKT1'' = Inr g3 \<and>
          get_node_label g3 (''Gene'', ''HGNC'', ''AKT1'') = Inr (VStr ''AKT1 gene'') \<and>
          get_node_description g3 (''Gene'', ''HGNC'', ''AKT1'') = Inr (VStr ''kinase'')))"
  using add_simple_node_idempotent [OF wf_ex_g, of "''Gene''" "''HGNC''" "''AKT1''"] wf_ex_g
  by blast

section \<open>Edge attributes and filtered iteration: results\<close>

text \<open>
  C6, as amended. When no edge with key \<open>key\<close> exists between \<open>u\<close> and \<open>v\<close>,
  \<open>get_edge_citation\<close>, \<open>get_edge_evidence\<close> and \<open>get_edge_annotations\<close> all fail with
  \<open>KeyError\<close>. When the edge exists, each returns the citation, evidence or annotations
  entry of the edge's data if the data has that entry, and fails with \<open>KeyError\<close> if it
  has not.
\<close>

theorem get_edge_attributes:
  "(\<not> has_edge g u v (Some key) \<longrightarrow>
      get_edge_citation g u v key = Inl KeyError \<and>
      get_edge_evidence g u v key = Inl KeyError \<and>
      get_edge_annotations g u v key = Inl KeyError) \<and>
   (has_edge g u v (Some key) \<longrightarrow>
      (\<exists>d. edge_data g u v key = Inr d \<and>
         get_edge_citation g u v key =
           (case d CITATION of None \<Rightarrow> Inl KeyError | Some c \<Rightarrow> Inr c) \<and>
         get_edge_evidence g u v key =
           (case d EVIDENCE of None \<Rightarrow> Inl KeyError | Some c \<Rightarrow> Inr c) \<and>
         get_edge_annotations g u v key =
           (case d ANNOTATIONS of None \<Rightarrow> Inl KeyError | Some c \<Rightarrow> Inr c)))"
proof (cases "edge_lookup g u v key")
  case None
  then show ?thesis
    by (simp add: has_edge_lookup get_edge_citation_def get_edge_evidence_def
        get_edge_annotations_def edge_data_lookup)
next
  case (Some d)
  then show ?thesis
    by (simp add: has_edge_lookup get_edge_citation_def get_edge_evidence_def
        get_edge_annotations_def edge_data_lookup attr_subscript_def)
qed

theorem get_edge_attributes_witness:
  "\<not> has_edge ex_g ex_u ex_v (Some 5) \<and>
   get_edge_citation ex_g ex_u ex_v 5 = Inl KeyError \<and>
   get_edge_evidence ex_g ex_u ex_v 5 = Inl KeyError \<and>
   get_edge_annotations ex_g ex_u ex_v 5 = Inl KeyError \<and>
   has_edge ex_g ex_u ex_v (Some 0) \<and>
   get_edge_citation ex_g ex_u ex_v 0 = Inr (VStr ''9611787'') \<and>
   get_edge_evidence ex_g ex_u ex_v 0 = Inr (VStr ''first'') \<and>
   get_edge_annotations ex_g ex_u ex_v 0 = Inr (VDict fmempty)"
proof -
  have no: "\<not> has_edge ex_g ex_u ex_v (Some 5)"
    by (simp add: has_edge_def subscript_def dict_in_def ex_g_def ex_nodes_distinct)
  have yes: "has_edge ex_g ex_u ex_v (Some 0)"
    by (simp add: has_edge_def subscript_def dict_in_def ex_g_def ex_nodes_distinct)
  have d: "edge_data ex_g ex_u ex_v 0 = Inr ex_q1"
    by (simp add: edge_data_def subscript_def ex_g_def ex_nodes_distinct)
  have q: "ex_q1 CITATION = Some (VStr ''9611787'')" "ex_q1 EVIDENCE = Some (VStr ''first'')"
    "ex_q1 ANNOTATIONS = Some (VDict fmempty)"
    by (simp_all add: ex_q1_def CITATION_def EVIDENCE_def ANNOTATIONS_def RELATION_def)
  from get_edge_attributes [of ex_g ex_u ex_v 5] no
  have 1: "get_edge_citation ex_g ex_u ex_v 5 = Inl KeyError"
    "get_edge_evidence ex_g ex_u ex_v 5 = Inl KeyError"
    "get_edge_annotations ex_g ex_u ex_v 5 = Inl KeyError"
    by blast+
  from get_edge_attributes [of ex_g ex_u ex_v 0] yes d q
  have 2: "get_edge_citation ex_g ex_u ex_v 0 = Inr (VStr ''9611787'')"
    "get_edge_evidence ex_g ex_u ex_v 0 = Inr (VStr ''first'')"
    "get_edge_annotations ex_g ex_u ex_v 0 = Inr (VDict fmempty)"
    by auto
  from no yes 1 2 show ?thesis by blast
qed

text \<open>
  The claim as stated, that the accessors return the attribute whenever the edge exists,
  fails for the edges that \<open>add_unqualified_edge\<close> itself creates: their data has a
  relation and empty annotations, and neither citation nor evidence.
\<close>

theorem get_edge_citation_counterexample:
  "add_unqualified_edge ex_code (MultiDiGraph_init Map.empty) ex_u ex_v ''hasVariant'' = Inr cx_g \<and>
   has_edge cx_g ex_u ex_v (Some (- 1)) \<and>
   get_edge_citation cx_g ex_u ex_v (- 1) = Inl KeyError \<and>
   get_edge_evidence cx_g ex_u ex_v (- 1) = Inl KeyError \<and>
   get_edge_annotations cx_g ex_u ex_v (- 1) = Inr (VDict fmempty)"
proof -
  have build: "add_unqualified_edge ex_code (MultiDiGraph_init Map.empty) ex_u ex_v ''hasVariant''
      = Inr cx_g"
    by (simp add: add_unqualified_edge_def ex_code_def has_edge_def subscript_def
        MultiDiGraph_init_def add_edge_def ensure_node_def dict_in_def Let_def
        effective_attr_dict_def ex_nodes_distinct cx_g_def ex_unq_def)
  have e: "has_edge cx_g ex_u ex_v (Some (- 1))"
    by (simp add: has_edge_def subscript_def dict_in_def cx_g_def ex_nodes_distinct)
  have d: "edge_data cx_g ex_u ex_v (- 1) = Inr ex_unq"
    by (simp add: edge_data_def subscript_def cx_g_def ex_nodes_distinct)
  have a: "ex_unq CITATION = None" "ex_unq EVIDENCE = None"
    "ex_unq ANNOTATIONS = Some (VDict fmempty)"
    by (simp_all add: ex_unq_def CITATION_def EVIDENCE_def ANNOTATIONS_def RELATION_def)
  from build e d a show ?thesis
    by (simp add: get_edge_citation_def get_edge_evidence_def get_edge_annotations_def
        attr_subscript_def)
qed

lemma concat_map_if:
  "concat (map (\<lambda>x. if P x then [f x] else []) xs) = map f (filter P xs)"
  by (induction xs) auto

lemma subdict_matches_map_le:
  assumes "distinct_keys kwargs"
  shows "subdict_matches d kwargs \<longleftrightarrow> map_of kwargs \<subseteq>\<^sub>m d"
proof
  assume m: "subdict_matches d kwargs"
  show "map_of kwargs \<subseteq>\<^sub>m d"
    unfolding map_le_def
  proof
    fix k assume "k \<in> dom (map_of kwargs)"
    then obtain v where v: "map_of kwargs k = Some v" by auto
    then have "(k, v) \<in> set kwargs" by (rule map_of_SomeD)
    with m have "d k = Some v"
      by (auto simp: subdict_matches_def list_all_iff)
    with v show "map_of kwargs k = d k" by simp
  qed
next
  assume le: "map_of kwargs \<subseteq>\<^sub>m d"
  have "d k = Some v" if "(k, v) \<in> set kwargs" for k v
  proof -
    from assms that have "map_of kwargs k = Some v"
      by (rule distinct_keys_mem)
    with le show ?thesis
      by (auto simp: map_le_def dom_def)
  qed
  then show "subdict_matches d kwargs"
    by (auto simp: subdict_matches_def list_all_iff)
qed

lemma nodes_iter_filter:
  "nodes_iter g data kwargs =
     map (node_item data) (filter (\<lambda>(n, d). subdict_matches d kwargs) (node g))"
proof -
  have eq: "(\<lambda>(n, d). if \<not> subdict_matches d kwargs then []
                    else if data then [ND n d] else [N n]) =
        (\<lambda>x. if (\<lambda>(n, d). subdict_matches d kwargs) x then [node_item data x] else [])"
    by (auto simp: node_item_def fun_eq_iff)
  show ?thesis
    unfolding nodes_iter_def MultiDiGraph_nodes_iter_def eq by (rule concat_map_if)
qed

lemma edges_iter_filter:
  "edges_iter g nbunch data keys kwargs =
     map (edge_item data keys)
       (filter (\<lambda>(u, v, k, d). subdict_matches d kwargs) (MultiDiGraph_edges_iter g nbunch))"
proof -
  have eq: "(\<lambda>(u, v, k, d).
          if \<not> subdict_matches d kwargs then []
          else if keys \<and> data then [UVKD u v k d]
          else if data then [UVD u v d]
          else if keys then [UVK u v k]
          else [UV u v]) =
        (\<lambda>x. if (\<lambda>(u, v, k, d). subdict_matches d kwargs) x then [edge_item data keys x] else [])"
    by (auto simp: edge_item_def fun_eq_iff)
  show ?thesis
    unfolding edges_iter_def eq by (rule concat_map_if)
qed

lemma wf_graph_nodes:
  "wf_graph g \<Longrightarrow> (n, d) \<in> set (node g) \<longleftrightarrow> subscript (node g) n = Inr d"
  by (auto simp: wf_graph_def subscript_map_of distinct_keys_def)

text \<open>
  C5. For a well-formed graph and keyword constraints \<open>kwargs\<close> (a dictionary, so with
  distinct keys), \<open>nodes_iter\<close> yields exactly the items of the nodes whose data is a
  superset of the constraints, and \<open>edges_iter\<close> (over the whole graph) exactly the items
  of the edges whose data is a superset of the constraints, in the order of the
  unfiltered iteration; with no constraints they yield every node and every edge; and
  the sequences are no longer than the unfiltered ones.
\<close>

theorem filtered_iteration:
  fixes g :: "'n BELGraph"
  assumes "wf_graph g" and "distinct_keys kwargs"
  shows "set (nodes_iter g data kwargs) =
           {node_item data (n, d) |n d. subscript (node g) n = Inr d \<and> map_of kwargs \<subseteq>\<^sub>m d} \<and>
         set (edges_iter g None data keys kwargs) =
           {edge_item data keys (u, v, k, d) |u v k d.
              edge_data g u v k = Inr d \<and> map_of kwargs \<subseteq>\<^sub>m d} \<and>
         nodes_iter g data kwargs =
           map (node_item data) (filter (\<lambda>(n, d). map_of kwargs \<subseteq>\<^sub>m d) (node g)) \<and>
         edges_iter g None data keys kwargs =
           map (edge_item data keys)
             (filter (\<lambda>(u, v, k, d). map_of kwargs \<subseteq>\<^sub>m d) (MultiDiGraph_edges_iter g None)) \<and>
         nodes_iter g data [] = map (node_item data) (node g) \<and>
         edges_iter g None data keys [] =
           map (edge_item data keys) (MultiDiGraph_edges_iter g None) \<and>
         length (nodes_iter g data kwargs) \<le> length (node g) \<and>
         length (edges_iter g None data keys kwargs) \<le> length (MultiDiGraph_edges_iter g None)"
proof -
  have sub: "subdict_matches d kwargs \<longleftrightarrow> map_of kwargs \<subseteq>\<^sub>m d" for d
    using assms(2) by (rule subdict_matches_map_le)
  have n_list: "nodes_iter g data kwargs =
      map (node_item data) (filter (\<lambda>(n, d). map_of kwargs \<subseteq>\<^sub>m d) (node g))"
    by (simp add: nodes_iter_filter sub)
  have e_list: "edges_iter g None data keys kwargs =
      map (edge_item data keys)
        (filter (\<lambda>(u, v, k, d). map_of kwargs \<subseteq>\<^sub>m d) (MultiDiGraph_edges_iter g None))"
    by (simp add: edges_iter_filter sub)
  have n_set: "set (nodes_iter g data kwargs) =
      {node_item data (n, d) |n d. subscript (node g) n = Inr d \<and> map_of kwargs \<subseteq>\<^sub>m d}"
  proof (intro set_eqI iffI)
    fix x assume "x \<in> set (nodes_iter g data kwargs)"
    then obtain n d where "x = node_item data (n, d)" "(n, d) \<in> set (node g)"
      "map_of kwargs \<subseteq>\<^sub>m d"
      unfolding n_list by auto
    then show "x \<in> {node_item data (n, d) |n d.
        subscript (node g) n = Inr d \<and> map_of kwargs \<subseteq>\<^sub>m d}"
      using wf_graph_nodes [OF assms(1)] by blast
  next
    fix x assume "x \<in> {node_item data (n, d) |n d.
        subscript (node g) n = Inr d \<and> map_of kwargs \<subseteq>\<^sub>m d}"
    then obtain n d where x: "x = node_item data (n, d)"
      and "subscript (node g) n = Inr d" and le: "map_of kwargs \<subseteq>\<^sub>m d"
      by blast
    then have "(n, d) \<in> set (node g)"
      using wf_graph_nodes [OF assms(1)] by blast
    with le have "(n, d) \<in> set (filter (\<lambda>(n, d). map_of kwargs \<subseteq>\<^sub>m d) (node g))"
      by simp
    then show "x \<in> set (nodes_iter g data kwargs)"
      unfolding n_list x set_map by (rule imageI)
  qed
  have e_mem: "(u, v, k, d) \<in> set (MultiDiGraph_edges_iter g None) \<longleftrightarrow> edge_data g u v k = Inr d"
    for u v k d
    using wf_graph_edges_iter [OF assms(1)] by (simp add: edge_data_Inr)
  have e_set: "set (edges_iter g None data keys kwargs) =
      {edge_item data keys (u, v, k, d) |u v k d.
         edge_data g u v k = Inr d \<and> map_of kwargs \<subseteq>\<^sub>m d}"
  proof (intro set_eqI iffI)
    fix x assume "x \<in> set (edges_iter g None data keys kwargs)"
    then obtain u v k d where "x = edge_item data keys (u, v, k, d)"
      "(u, v, k, d) \<in> set (MultiDiGraph_edges_iter g None)" "map_of kwargs \<subseteq>\<^sub>m d"
      unfolding e_list by auto
    then show "x \<in> {edge_item data keys (u, v, k, d) |u v k d.
         edge_data g u v k = Inr d \<and> map_of kwargs \<subseteq>\<^sub>m d}"
      using e_mem by blast
  next
    fix x assume "x \<in> {edge_item data keys (u, v, k, d) |u v k d.
         edge_data g u v k = Inr d \<and> map_of kwargs \<subseteq>\<^sub>m d}"
    then obtain u v k d where x: "x = edge_item data keys (u, v, k, d)"
      and "edge_data g u v k = Inr d" and le: "map_of kwargs \<subseteq>\<^sub>m d"
      by blast
    then have "(u, v, k, d) \<in> set (MultiDiGraph_edges_iter g None)"
      using e_mem by blast
    with le have "(u, v, k, d) \<in> set (filter (\<lambda>(u, v, k, d). map_of kwargs \<subseteq>\<^sub>m d)
        (MultiDiGraph_edges_iter g None))"
      by simp
    then show "x \<in> set (edges_iter g None data keys kwargs)"
      unfolding e_list x set_map by (rule imageI)
  qed
  have n_all: "nodes_iter g data [] = map (node_item data) (node g)"
    by (simp add: nodes_iter_filter subdict_matches_Nil)
  have e_all: "edges_iter g None data keys [] =
      map (edge_item data keys) (MultiDiGraph_edges_iter g None)"
    by (simp add: edges_iter_filter subdict_matches_Nil)
  have n_len: "length (nodes_iter g data kwargs) \<le> length (node g)"
    by (simp add: nodes_iter_filter)
  have e_len: "length (edges_iter g None data keys kwargs)
      \<le> length (MultiDiGraph_edges_iter g None)"
    by (simp add: edges_iter_filter)
  from n_set e_set n_list e_list n_all e_all n_len e_len show ?thesis
    by blast
qed

theorem filtered_iteration_witness:
  "wf_graph ex_h \<and> distinct_keys [(RELATION, VStr ''decreases'')] \<and>
   edges_iter ex_h None True True [(RELATION, VStr ''decreases'')] = [UVKD ex_u ex_v 1 ex_q2] \<and>
   nodes_iter ex_h False [(RELATION, VStr ''decreases'')] = [] \<and>
   nodes_iter ex_h False [] = [N ex_u, N ex_v, N ex_w]"
proof -
  have dk: "distinct_keys [(RELATION, VStr ''decreases'')]"
    by (simp add: distinct_keys_def)
  have q: "\<not> [RELATION \<mapsto> VStr ''decreases''] \<subseteq>\<^sub>m ex_q1"
    "[RELATION \<mapsto> VStr ''decreases''] \<subseteq>\<^sub>m ex_q2"
    "\<not> [RELATION \<mapsto> VStr ''decreases''] \<subseteq>\<^sub>m ex_unq2"
    "\<not> [RELATION \<mapsto> VStr ''decreases''] \<subseteq>\<^sub>m [LABEL \<mapsto> VStr ''donor'']"
    "\<not> [RELATION \<mapsto> VStr ''decreases''] \<subseteq>\<^sub>m Map.empty"
    by (simp_all add: map_le_def ex_q1_def ex_q2_def ex_unq2_def RELATION_def EVIDENCE_def
        CITATION_def ANNOTATIONS_def LABEL_def)
  have es: "MultiDiGraph_edges_iter ex_h None =
      [(ex_u, ex_v, 0, ex_q1), (ex_u, ex_v, 1, ex_q2), (ex_u, ex_w, - 2, ex_unq2)]"
    by (simp add: MultiDiGraph_edges_iter_def nodes_nbrs_def ex_h_def)
  have ns: "node ex_h = [(ex_u, [LABEL \<mapsto> VStr ''donor'']), (ex_v, Map.empty), (ex_w, Map.empty)]"
    by (simp add: ex_h_def)
  from filtered_iteration [OF wf_ex_h dk, of True True]
  have 1: "edges_iter ex_h None True True [(RELATION, VStr ''decreases'')] =
      [UVKD ex_u ex_v 1 ex_q2]"
    using q by (simp add: es ns edge_item_def node_item_def)
  from filtered_iteration [OF wf_ex_h dk, of False True]
  have 2: "nodes_iter ex_h False [(RELATION, VStr ''decreases'')] = []"
    and 3: "nodes_iter ex_h False [] = [N ex_u, N ex_v, N ex_w]"
    using q by (simp_all add: es ns edge_item_def node_item_def)
  from wf_ex_h dk 1 2 3 show ?thesis by blast
qed

section \<open>The date sanitizer: results\<close>

lemma month_number_two: "month_number m = Some mm \<Longrightarrow> two_digits mm"
  unfolding month_number_def
  by (drule map_of_SomeD) (auto simp: two_digits_def is_digit_def)

lemma season_month_two: "season_month m = Some mm \<Longrightarrow> two_digits mm"
  unfolding season_month_def
  by (drule map_of_SomeD) (auto simp: two_digits_def is_digit_def)

lemma pad2_two: "is_day d \<Longrightarrow> two_digits (pad2 d)"
  by (auto simp: is_day_def two_digits_def pad2_def is_digit_def)

lemma first_two: "two_digits ''01''"
  by (simp add: two_digits_def is_digit_def)

lemma iso_date_iso:
  assumes "is_year y" and "two_digits m" and "two_digits d"
  shows "iso_date (iso_string y m d)"
proof -
  from assms have len: "length y = 4" "length m = 2" "length d = 2"
    by (simp_all add: is_year_def two_digits_def)
  then have "take 4 (iso_string y m d) = y" "iso_string y m d ! 4 = CHR ''-''"
    "take 2 (drop 5 (iso_string y m d)) = m" "iso_string y m d ! 7 = CHR ''-''" "drop 8 (iso_string y m d) = d"
    "length (iso_string y m d) = 10"
    by (simp_all add: iso_string_def nth_append)
  with assms show ?thesis
    by (simp add: iso_date_def)
qed

lemma year_month_day_iso: "year_month_day s = Some r \<Longrightarrow> iso_date r"
  by (auto simp: year_month_day_def iso_date_iso month_number_two pad2_two
      split: list.splits option.splits if_splits)

lemma year_month_day_range_iso: "year_month_day_range s = Some r \<Longrightarrow> iso_date r"
  by (auto simp: year_month_day_range_def iso_date_iso month_number_two pad2_two
      split: list.splits option.splits if_splits)

lemma year_month_day_month_day_iso: "year_month_day_month_day s = Some r \<Longrightarrow> iso_date r"
  by (auto simp: year_month_day_month_day_def iso_date_iso month_number_two pad2_two
      split: list.splits option.splits if_splits)

lemma year_month_range_iso: "year_month_range s = Some r \<Longrightarrow> iso_date r"
  by (auto simp: year_month_range_def iso_date_iso month_number_two first_two
      split: list.splits option.splits if_splits)

lemma year_month_iso: "year_month s = Some r \<Longrightarrow> iso_date r"
  by (auto simp: year_month_def iso_date_iso month_number_two first_two
      split: list.splits option.splits if_splits)

lemma year_season_iso: "year_season s = Some r \<Longrightarrow> iso_date r"
  by (auto simp: year_season_def iso_date_iso season_month_two first_two
      split: list.splits option.splits if_splits)

lemma year_only_iso: "year_only s = Some r \<Longrightarrow> iso_date r"
  by (auto simp: year_only_def iso_date_iso first_two split: if_splits)

lemma sanitize_date_iso: "sanitize_date s = Some r \<Longrightarrow> iso_date r"
  unfolding sanitize_date_def
  by (auto split: option.splits
      dest: year_month_day_iso year_month_day_range_iso year_month_day_month_day_iso
        year_month_range_iso year_month_iso year_season_iso year_only_iso)

text \<open>
  C4. The date sanitizer is a total function: on every string it returns either the
  failure sentinel or a string of the shape \<open>YYYY-MM-DD\<close>, and never anything else. On the
  eight inputs of the test suite it returns the listed results, the last one being the
  failure sentinel.
\<close>

theorem sanitize_date_total:
  "(sanitize_date s = None \<or> (\<exists>r. sanitize_date s = Some r \<and> iso_date r)) \<and>
   sanitize_date ''2012 Dec 19'' = Some ''2012-12-19'' \<and>
   sanitize_date ''2012 Dec'' = Some ''2012-12-01'' \<and>
   sanitize_date ''2012'' = Some ''2012-01-01'' \<and>
   sanitize_date ''2012 Oct-Dec'' = Some ''2012-10-01'' \<and>
   sanitize_date ''2012 Spring'' = Some ''2012-03-01'' \<and>
   sanitize_date ''2012 Dec 12-15'' = Some ''2012-12-12'' \<and>
   sanitize_date ''2005 Jan 29-Feb 4'' = Some ''2005-01-29'' \<and>
   sanitize_date ''2012 Early Spring'' = None"
proof -
  have shape: "sanitize_date s = None \<or> (\<exists>r. sanitize_date s = Some r \<and> iso_date r)"
    using sanitize_date_iso [of s] by (cases "sanitize_date s") auto
  have 1: "sanitize_date ''2012 Dec 19'' = Some ''2012-12-19''" by code_simp
  have 2: "sanitize_date ''2012 Dec'' = Some ''2012-12-01''" by code_simp
  have 3: "sanitize_date ''2012'' = Some ''2012-01-01''" by code_simp
  have 4: "sanitize_date ''2012 Oct-Dec'' = Some ''2012-10-01''" by code_simp
  have 5: "sanitize_date ''2012 Spring'' = Some ''2012-03-01''" by code_simp
  have 6: "sanitize_date ''2012 Dec 12-15'' = Some ''2012-12-12''" by code_simp
  have 7: "sanitize_date ''2005 Jan 29-Feb 4'' = Some ''2005-01-29''" by code_simp
  have 8: "sanitize_date ''2012 Early Spring'' = None" by code_simp
  from shape 1 2 3 4 5 6 7 8 show ?thesis by blast
qed

end
